theory Spec2Isabelle
  imports Main "HOL-Library.Word" "HOL-Library.AList"
begin

section \<open>WON authenticated sessions (source/3rdparty/won/auth/Session.cpp)\<close>

text \<open>
  A \<open>Session\<close> is a reference-counted handle on a heap-allocated \<open>SessionData\<close>
  record. The embedding keeps the records in an explicit store indexed by address, so
  that the sharing between handles is visible; a handle is the value of its \<open>mRefP\<close>
  pointer. Each member function takes the store and returns the updated one. Reading
  through a pointer to a record that is no longer allocated, or through a null key
  pointer, is undefined in C++; here it is the error result \<open>Inl\<close>.
  The model is sequential: the critical section \<open>mCrit\<close> and the atomicity of the
  \<open>Interlocked\<close> calls have no counterpart.
\<close>

subsection \<open>Data\<close>

type_synonym addr = nat

type_synonym ushort = "16 word"

text \<open>
  Modelled from the spec: the enumeration of encryption modes and the class
  \<open>EncryptAttributes\<close> are declared in Session.h, which is not part of the sources.
  The spec gives the modes None and Blowfish and allows further tags, which the output
  operator below renders as UNKNOWN, and three boolean flags.
\<close>

datatype EncryptMode = ENCRYPT_NONE | ENCRYPT_BLOWFISH | ENCRYPT_OTHER nat

record EncryptAttributes =
  mEncryptMode :: EncryptMode
  mIsSequenced :: bool
  mIsSession :: bool
  mEncryptAll :: bool

text \<open>
  Modelled from the spec: the class \<open>SessionData\<close> is declared in Session.h as well.
  Its members are those its constructor initialises; the identifier and the two
  sequence numbers are 16-bit unsigned (the spec's \<open>uint16\<close>, the \<open>unsigned short\<close> of
  the methods' parameters), \<open>mLastAction\<close> is a \<open>time_t\<close>, and the reference count is
  the \<open>long\<close> of the \<open>Interlocked\<close> calls, here an unbounded integer.
  \<open>mKeyP\<close> and \<open>mCertP\<close> are pointers to objects owned by the record: \<open>None\<close> is
  \<open>NULL\<close>, \<open>Some k\<close> the object at address \<open>k\<close>.
\<close>

record SessionData =
  mRefCt :: int
  mId :: ushort
  mIsRemote :: bool
  mEncryptAttr :: EncryptAttributes
  mKeyP :: "addr option"
  mCertP :: "addr option"
  mLastAction :: int
  mRecvSeq :: ushort
  mSendSeq :: ushort
  mRecvCt :: int
  mSendCt :: int
  mProcCt :: int

record Session =
  mRefP :: addr

datatype fault = DanglingPointer | NullPointer | NoSuchObject

text \<open>
  The program state: the allocated \<open>SessionData\<close> records, the two class members
  \<open>gNextSessionId\<close> and \<open>gInvalidSession\<close>, the addresses of the key and certificate
  objects on which \<open>delete\<close> has run (in order), and the value \<open>time(NULL)\<close> returns.
\<close>

record world =
  heap :: "(addr \<times> SessionData) list"
  gNextSessionId :: ushort
  gInvalidSession :: Session
  deleted :: "addr list"
  clock :: int

subsection \<open>Store access\<close>

definition deref :: "world \<Rightarrow> Session \<Rightarrow> fault + SessionData" where
  "deref w s = (case map_of (heap w) (mRefP s) of
                  None \<Rightarrow> Inl DanglingPointer
                | Some d \<Rightarrow> Inr d)"

definition store :: "world \<Rightarrow> Session \<Rightarrow> SessionData \<Rightarrow> world" where
  "store w s d = w\<lparr>heap := AList.update (mRefP s) d (heap w)\<rparr>"

text \<open>\<open>new\<close> returns an address at which no record is allocated.\<close>

primrec top_addr :: "(addr \<times> SessionData) list \<Rightarrow> addr" where
  "top_addr [] = 0"
| "top_addr (p # ps) = max (fst p) (top_addr ps)"

definition new_addr :: "(addr \<times> SessionData) list \<Rightarrow> addr" where
  "new_addr h = Suc (top_addr h)"

subsection \<open>SessionData: constructor and destructor\<close>

definition default_EncryptAttributes :: EncryptAttributes where
  "default_EncryptAttributes =
     \<lparr>mEncryptMode = ENCRYPT_NONE, mIsSequenced = False, mIsSession = False,
      mEncryptAll = False\<rparr>"

definition SessionData_ctor :: SessionData where
  "SessionData_ctor =
     \<lparr>mRefCt = 1, mId = 0, mIsRemote = False, mEncryptAttr = default_EncryptAttributes,
      mKeyP = None, mCertP = None, mLastAction = 0, mRecvSeq = 0, mSendSeq = 0,
      mRecvCt = 0, mSendCt = 0, mProcCt = 0\<rparr>"

text \<open>\<open>delete p\<close> on a key or certificate pointer: nothing for \<open>NULL\<close>.\<close>

definition delete_obj :: "addr option \<Rightarrow> addr list \<Rightarrow> addr list" where
  "delete_obj p log = (case p of None \<Rightarrow> log | Some a \<Rightarrow> log @ [a])"

definition SessionData_dtor :: "SessionData \<Rightarrow> addr list \<Rightarrow> addr list" where
  "SessionData_dtor d log = delete_obj (mCertP d) (delete_obj (mKeyP d) log)"

text \<open>\<open>new SessionData\<close> and \<open>delete mRefP\<close>.\<close>

definition new_SessionData :: "world \<Rightarrow> Session \<times> world" where
  "new_SessionData w =
     (let p = new_addr (heap w)
      in (\<lparr>mRefP = p\<rparr>, w\<lparr>heap := AList.update p SessionData_ctor (heap w)\<rparr>))"

definition delete_SessionData :: "world \<Rightarrow> Session \<Rightarrow> fault + world" where
  "delete_SessionData w s =
     (case deref w s of
        Inl e \<Rightarrow> Inl e
      | Inr d \<Rightarrow> Inr (w\<lparr>heap := AList.delete (mRefP s) (heap w),
                        deleted := SessionData_dtor d (deleted w)\<rparr>))"

text \<open>The Win32 calls on \<open>mRefCt\<close>: both return the new value.\<close>

definition InterlockedIncrement :: "world \<Rightarrow> Session \<Rightarrow> fault + (int \<times> world)" where
  "InterlockedIncrement w s =
     (case deref w s of
        Inl e \<Rightarrow> Inl e
      | Inr d \<Rightarrow> Inr (mRefCt d + 1, store w s (d\<lparr>mRefCt := mRefCt d + 1\<rparr>)))"

definition InterlockedDecrement :: "world \<Rightarrow> Session \<Rightarrow> fault + (int \<times> world)" where
  "InterlockedDecrement w s =
     (case deref w s of
        Inl e \<Rightarrow> Inl e
      | Inr d \<Rightarrow> Inr (mRefCt d - 1, store w s (d\<lparr>mRefCt := mRefCt d - 1\<rparr>)))"

text \<open>
  The statement \<open>if (InterlockedDecrement(&(mRefP->mRefCt)) <= 0) delete mRefP;\<close>,
  which the destructor, the assignment operator and \<open>Init\<close> share.
\<close>

definition release :: "world \<Rightarrow> Session \<Rightarrow> fault + world" where
  "release w s =
     (case InterlockedDecrement w s of
        Inl e \<Rightarrow> Inl e
      | Inr (n, w1) \<Rightarrow> if n \<le> 0 then delete_SessionData w1 s else Inr w1)"

subsection \<open>Session: constructors and destructor\<close>

text \<open>The default constructor: a further handle on the record of \<open>gInvalidSession\<close>.\<close>

definition Session_ctor :: "world \<Rightarrow> fault + (Session \<times> world)" where
  "Session_ctor w =
     (let this = \<lparr>mRefP = mRefP (gInvalidSession w)\<rparr>
      in case InterlockedIncrement w (gInvalidSession w) of
           Inl e \<Rightarrow> Inl e
         | Inr (n, w1) \<Rightarrow> Inr (this, w1))"

text \<open>
  The private constructor \<open>Session(unsigned short theId)\<close>: the record just allocated
  is the one the default constructor of \<open>SessionData\<close> builds, and \<open>mId\<close> is set in it.
\<close>

definition Session_ctor_id :: "world \<Rightarrow> ushort \<Rightarrow> Session \<times> world" where
  "Session_ctor_id w theId =
     (let (this, w1) = new_SessionData w
      in (this, store w1 this (SessionData_ctor\<lparr>mId := theId\<rparr>)))"

definition Session_copy :: "world \<Rightarrow> Session \<Rightarrow> fault + (Session \<times> world)" where
  "Session_copy w theSessR =
     (let this = \<lparr>mRefP = mRefP theSessR\<rparr>
      in case InterlockedIncrement w theSessR of
           Inl e \<Rightarrow> Inl e
         | Inr (n, w1) \<Rightarrow> Inr (this, w1))"

definition Session_dtor :: "world \<Rightarrow> Session \<Rightarrow> fault + world" where
  "Session_dtor w this = release w this"

subsection \<open>Private and public methods\<close>

definition GetNextSessionId :: "world \<Rightarrow> ushort \<times> world" where
  "GetNextSessionId w =
     (let aRet = gNextSessionId w;
          w1 = w\<lparr>gNextSessionId := gNextSessionId w + 1\<rparr>;
          w2 = (if gNextSessionId w1 = 0 then w1\<lparr>gNextSessionId := 1\<rparr> else w1)
      in (aRet, w2))"

definition Session_assign :: "world \<Rightarrow> Session \<Rightarrow> Session \<Rightarrow> fault + (Session \<times> world)" where
  "Session_assign w this theSessR =
     (if mRefP this \<noteq> mRefP theSessR then
        (case InterlockedIncrement w theSessR of
           Inl e \<Rightarrow> Inl e
         | Inr (n, w1) \<Rightarrow>
             (case release w1 this of
                Inl e \<Rightarrow> Inl e
              | Inr w2 \<Rightarrow> Inr (this\<lparr>mRefP := mRefP theSessR\<rparr>, w2)))
      else Inr (this, w))"

definition IsValid :: "world \<Rightarrow> Session \<Rightarrow> fault + bool" where
  "IsValid w this =
     (case deref w this of
        Inl e \<Rightarrow> Inl e
      | Inr d \<Rightarrow>
          if mId d = 0 then Inr False
          else Inr (if mEncryptMode (mEncryptAttr d) \<noteq> ENCRYPT_NONE
                    then mKeyP d \<noteq> None \<and> mCertP d \<noteq> None
                    else True))"

text \<open>
  Modelled from the spec: \<open>Touch\<close> is defined in Session.h, which is not part of the
  sources. The spec: it "updates lastAction to the current time, under the record's lock".
\<close>

definition Touch :: "world \<Rightarrow> Session \<Rightarrow> fault + world" where
  "Touch w this =
     (case deref w this of
        Inl e \<Rightarrow> Inl e
      | Inr d \<Rightarrow> Inr (store w this (d\<lparr>mLastAction := clock w\<rparr>)))"

definition Init ::
  "world \<Rightarrow> Session \<Rightarrow> EncryptAttributes \<Rightarrow> addr option \<Rightarrow> addr option \<Rightarrow> ushort
     \<Rightarrow> fault + (Session \<times> world)" where
  "Init w this theAttr theKeyP theCertP theId =
     (case deref w this of
        Inl e \<Rightarrow> Inl e
      | Inr d0 \<Rightarrow>
         (case (if 1 < mRefCt d0
                then (case release w this of
                        Inl e \<Rightarrow> Inl e
                      | Inr w1 \<Rightarrow> Inr (new_SessionData w1))
                else Inr (this, w)) of
            Inl e \<Rightarrow> Inl e
          | Inr (this1, w2) \<Rightarrow>
             (case deref w2 this1 of
                Inl e \<Rightarrow> Inl e
              | Inr d \<Rightarrow>
                 (let (d1, w3) =
                        (if 0 < uint theId
                         then (d\<lparr>mId := theId, mIsRemote := True\<rparr>, w2)
                         else (let (aRet, w') = GetNextSessionId w2
                               in (d\<lparr>mId := aRet, mIsRemote := False\<rparr>, w')));
                      d2 = d1\<lparr>mEncryptAttr := theAttr, mKeyP := theKeyP, mCertP := theCertP\<rparr>;
                      d3 = d2\<lparr>mRecvSeq := 0, mSendSeq := 0\<rparr>
                  in (case Touch (store w3 this1 d3) this1 of
                        Inl e \<Rightarrow> Inl e
                      | Inr w4 \<Rightarrow> Inr (this1, w4))))))"

text \<open>The constructor that allocates a record and initialises it.\<close>

definition Session_ctor_init ::
  "world \<Rightarrow> EncryptAttributes \<Rightarrow> addr option \<Rightarrow> addr option \<Rightarrow> ushort
     \<Rightarrow> fault + (Session \<times> world)" where
  "Session_ctor_init w theAttr theKeyP theCertP theId =
     (let (this, w1) = new_SessionData w
      in Init w1 this theAttr theKeyP theCertP theId)"

text \<open>
  The operands of \<open>+\<close>, \<open>==\<close> and \<open><\<close> are \<open>unsigned short\<close> and are promoted to
  \<open>int\<close> before the operation: the sum \<open>mRecvSeq + 1\<close> is an \<open>int\<close> and does not wrap
  at 16 bits.
\<close>

definition TestSetRecvSeq :: "world \<Rightarrow> Session \<Rightarrow> ushort \<Rightarrow> bool \<Rightarrow> fault + (bool \<times> world)" where
  "TestSetRecvSeq w this theSeq isReliable =
     (case deref w this of
        Inl e \<Rightarrow> Inl e
      | Inr d \<Rightarrow>
         (let aRet = (if isReliable then uint (mRecvSeq d) + 1 = uint theSeq
                      else uint (mRecvSeq d) < uint theSeq)
          in Inr (aRet, if aRet then store w this (d\<lparr>mRecvSeq := theSeq\<rparr>) else w)))"

definition TestSetSendSeq :: "world \<Rightarrow> Session \<Rightarrow> ushort \<Rightarrow> bool \<Rightarrow> fault + (bool \<times> world)" where
  "TestSetSendSeq w this theSeq isReliable =
     (case deref w this of
        Inl e \<Rightarrow> Inl e
      | Inr d \<Rightarrow>
         (let aRet = (if isReliable then uint (mSendSeq d) + 1 = uint theSeq
                      else uint (mSendSeq d) < uint theSeq)
          in Inr (aRet, if aRet then store w this (d\<lparr>mSendSeq := theSeq\<rparr>) else w)))"

subsection \<open>Diagnostic output\<close>

text \<open>
  The output stream is the list of the items inserted with \<open><<\<close>, in order.
  \<open>OKey k\<close> is the insertion of the \<open>SymmetricKey\<close> object at address \<open>k\<close>, \<open>OCert c\<close>
  that of the certificate object at address \<open>c\<close>; their own output operators belong to
  other files. \<open>ctime\<close> is the C library's and is a parameter of \<open>Dump\<close>.
\<close>

datatype out =
    OStr string
  | OChar char
  | OUShort ushort
  | OBool bool
  | OEndl
  | OKey addr
  | OCert addr

definition EncryptAttributes_out :: "EncryptAttributes \<Rightarrow> out list" where
  "EncryptAttributes_out theAttrR =
     [OChar CHR ''('']
     @ (case mEncryptMode theAttrR of
          ENCRYPT_NONE \<Rightarrow> [OStr ''NONE'']
        | ENCRYPT_BLOWFISH \<Rightarrow> [OStr ''BLOWFISH'']
        | ENCRYPT_OTHER n \<Rightarrow> [OStr ''UNKNOWN''])
     @ [OChar CHR '' '', OBool (mIsSequenced theAttrR), OChar CHR '' '',
        OBool (mIsSession theAttrR), OChar CHR '' '', OBool (mEncryptAll theAttrR),
        OChar CHR '')'']"

definition Dump :: "(int \<Rightarrow> string) \<Rightarrow> world \<Rightarrow> Session \<Rightarrow> bool \<Rightarrow> fault + out list" where
  "Dump ctime w this verbose =
     (case deref w this of
        Inl e \<Rightarrow> Inl e
      | Inr d \<Rightarrow>
          if \<not> verbose then
            (let aTStr = butlast (ctime (mLastAction d))
             in Inr [OStr ''(Session: '', OUShort (mId d), OChar CHR '' '', OStr aTStr,
                     OChar CHR '')''])
          else
            (let os1 = [OStr ''Session (Id='', OUShort (mId d), OChar CHR '')'', OEndl,
                        OStr ''  LastAction  = '', OStr (ctime (mLastAction d)),
                        OStr ''  EncryptAttr = '']
                       @ EncryptAttributes_out (mEncryptAttr d)
                       @ [OEndl,
                          OStr ''  RecvSeq     = '', OUShort (mRecvSeq d), OEndl,
                          OStr ''  SendSeq     = '', OUShort (mSendSeq d), OEndl,
                          OStr ''  SymmetricKey: ''];
                 os2 = os1 @ (case mKeyP d of Some k \<Rightarrow> [OKey k] | None \<Rightarrow> [OStr ''NULL''])
                           @ [OStr ''Certificate: '']
             in (case mCertP d of
                   Some c \<Rightarrow> (case mKeyP d of
                                None \<Rightarrow> Inl NullPointer
                              | Some k \<Rightarrow> Inr (os2 @ [OKey k]))
                 | None \<Rightarrow> Inr (os2 @ [OStr ''NULL'']))))"

subsection \<open>Static initialisation\<close>

text \<open>
  The class members: \<open>gNextSessionId = 1\<close> and \<open>gInvalidSession(0)\<close>, built by the
  private constructor in an empty store.
\<close>

definition static_init :: "int \<Rightarrow> world" where
  "static_init t =
     (let w0 = \<lparr>heap = [], gNextSessionId = 1, gInvalidSession = \<lparr>mRefP = 0\<rparr>,
                deleted = [], clock = t\<rparr>;
          (s, w1) = Session_ctor_id w0 0
      in w1\<lparr>gInvalidSession := s\<rparr>)"

subsection \<open>Client programs\<close>

text \<open>
  The identifiers returned by \<open>n\<close> successive calls of \<open>GetNextSessionId\<close>.
\<close>

fun GetNextSessionId_n :: "nat \<Rightarrow> world \<Rightarrow> ushort list \<times> world" where
  "GetNextSessionId_n 0 w = ([], w)"
| "GetNextSessionId_n (Suc n) w =
     (let (aRet, w1) = GetNextSessionId w;
          (rest, w2) = GetNextSessionId_n n w1
      in (aRet # rest, w2))"

text \<open>
  A client of the class holds \<open>Session\<close> objects, here the list \<open>vars\<close>, and uses them
  through the constructors, the destructor and the public methods only. A \<open>call\<close>
  names the objects it works on by their position in \<open>vars\<close>; a constructor adds an
  object at the end and the destructor removes the object it ran on. Naming no object is
  the error \<open>NoSuchObject\<close>.
\<close>

record prog =
  mem :: world
  vars :: "Session list"

datatype call =
    CDefault
  | CConstruct EncryptAttributes "addr option" "addr option" ushort
  | CSearch ushort
  | CCopy nat
  | CDestroy nat
  | CAssign nat nat
  | CIsValid nat
  | CInit nat EncryptAttributes "addr option" "addr option" ushort
  | CTouch nat
  | CTestSetRecvSeq nat ushort bool
  | CTestSetSendSeq nat ushort bool
  | CDump nat bool

datatype result = RVoid | RBool bool | ROut "out list"

definition constructed :: "prog \<Rightarrow> fault + (Session \<times> world) \<Rightarrow> fault + (result \<times> prog)" where
  "constructed p r =
     (case r of
        Inl e \<Rightarrow> Inl e
      | Inr (s, w) \<Rightarrow> Inr (RVoid, \<lparr>mem = w, vars = vars p @ [s]\<rparr>))"

definition rebound :: "prog \<Rightarrow> nat \<Rightarrow> fault + (Session \<times> world) \<Rightarrow> fault + (result \<times> prog)" where
  "rebound p i r =
     (case r of
        Inl e \<Rightarrow> Inl e
      | Inr (s, w) \<Rightarrow> Inr (RVoid, \<lparr>mem = w, vars = (vars p)[i := s]\<rparr>))"

fun exec :: "(int \<Rightarrow> string) \<Rightarrow> call \<Rightarrow> prog \<Rightarrow> fault + (result \<times> prog)" where
  "exec ctime CDefault p = constructed p (Session_ctor (mem p))"
| "exec ctime (CConstruct theAttr theKeyP theCertP theId) p =
     constructed p (Session_ctor_init (mem p) theAttr theKeyP theCertP theId)"
| "exec ctime (CSearch theId) p = constructed p (Inr (Session_ctor_id (mem p) theId))"
| "exec ctime (CCopy i) p =
     (if i < length (vars p) then constructed p (Session_copy (mem p) (vars p ! i))
      else Inl NoSuchObject)"
| "exec ctime (CDestroy i) p =
     (if i < length (vars p) then
        (case Session_dtor (mem p) (vars p ! i) of
           Inl e \<Rightarrow> Inl e
         | Inr w \<Rightarrow> Inr (RVoid, \<lparr>mem = w, vars = take i (vars p) @ drop (Suc i) (vars p)\<rparr>))
      else Inl NoSuchObject)"
| "exec ctime (CAssign i j) p =
     (if i < length (vars p) \<and> j < length (vars p) then
        rebound p i (Session_assign (mem p) (vars p ! i) (vars p ! j))
      else Inl NoSuchObject)"
| "exec ctime (CIsValid i) p =
     (if i < length (vars p) then
        (case IsValid (mem p) (vars p ! i) of
           Inl e \<Rightarrow> Inl e
         | Inr b \<Rightarrow> Inr (RBool b, p))
      else Inl NoSuchObject)"
| "exec ctime (CInit i theAttr theKeyP theCertP theId) p =
     (if i < length (vars p) then
        rebound p i (Init (mem p) (vars p ! i) theAttr theKeyP theCertP theId)
      else Inl NoSuchObject)"
| "exec ctime (CTouch i) p =
     (if i < length (vars p) then
        (case Touch (mem p) (vars p ! i) of
           Inl e \<Rightarrow> Inl e
         | Inr w \<Rightarrow> Inr (RVoid, p\<lparr>mem := w\<rparr>))
      else Inl NoSuchObject)"
| "exec ctime (CTestSetRecvSeq i theSeq isReliable) p =
     (if i < length (vars p) then
        (case TestSetRecvSeq (mem p) (vars p ! i) theSeq isReliable of
           Inl e \<Rightarrow> Inl e
         | Inr (b, w) \<Rightarrow> Inr (RBool b, p\<lparr>mem := w\<rparr>))
      else Inl NoSuchObject)"
| "exec ctime (CTestSetSendSeq i theSeq isReliable) p =
     (if i < length (vars p) then
        (case TestSetSendSeq (mem p) (vars p ! i) theSeq isReliable of
           Inl e \<Rightarrow> Inl e
         | Inr (b, w) \<Rightarrow> Inr (RBool b, p\<lparr>mem := w\<rparr>))
      else Inl NoSuchObject)"
| "exec ctime (CDump i verbose) p =
     (if i < length (vars p) then
        (case Dump ctime (mem p) (vars p ! i) verbose of
           Inl e \<Rightarrow> Inl e
         | Inr os \<Rightarrow> Inr (ROut os, p))
      else Inl NoSuchObject)"

text \<open>
  The states a client can reach: it starts after static initialisation with no object,
  time passes, and every call that returns leads to a further state.
\<close>

definition initial :: "int \<Rightarrow> prog" where
  "initial t = \<lparr>mem = static_init t, vars = []\<rparr>"

inductive reachable :: "prog \<Rightarrow> bool" where
  start: "reachable (initial t)"
| tick: "reachable p \<Longrightarrow> reachable (p\<lparr>mem := (mem p)\<lparr>clock := t\<rparr>\<rparr>)"
| call: "reachable p \<Longrightarrow> exec ctime c p = Inr (r, p') \<Longrightarrow> reachable p'"

subsection \<open>Auxiliary notions for the proofs\<close>

text \<open>
  The record that the assignments of \<open>Init\<close> make of \<open>d\<close> in the state \<open>w\<close>: the
  reference count and the three counters keep their values.
\<close>

definition initialised ::
  "world \<Rightarrow> SessionData \<Rightarrow> EncryptAttributes \<Rightarrow> addr option \<Rightarrow> addr option \<Rightarrow> ushort
     \<Rightarrow> SessionData" where
  "initialised w d theAttr theKeyP theCertP theId =
     d\<lparr>mId := (if theId \<noteq> 0 then theId else gNextSessionId w),
       mIsRemote := (theId \<noteq> 0),
       mEncryptAttr := theAttr, mKeyP := theKeyP, mCertP := theCertP,
       mRecvSeq := 0, mSendSeq := 0, mLastAction := clock w\<rparr>"

text \<open>
  The handles of a program state are the client's objects and \<open>gInvalidSession\<close>;
  \<open>cnt a hs\<close> is the number of handles in \<open>hs\<close> that point to address \<open>a\<close>. A state is
  consistent when every allocated record's reference count is the number of handles on
  it, no handle points to a record that is not allocated, \<open>gInvalidSession\<close> is the
  handle built at static initialisation and its record has identifier 0, and the
  identifier counter is not 0.
\<close>

definition cnt :: "addr \<Rightarrow> Session list \<Rightarrow> int" where
  "cnt a vs = int (length (filter (\<lambda>s. mRefP s = a) vs))"

definition handles :: "prog \<Rightarrow> Session list" where
  "handles p = gInvalidSession (mem p) # vars p"

definition coherent :: "(addr \<Rightarrow> SessionData option) \<Rightarrow> Session list \<Rightarrow> bool" where
  "coherent H hs \<longleftrightarrow>
     (\<forall>a. case H a of None \<Rightarrow> cnt a hs = 0 | Some d \<Rightarrow> mRefCt d = cnt a hs)"

definition consistent :: "prog \<Rightarrow> bool" where
  "consistent p \<longleftrightarrow>
     coherent (map_of (heap (mem p))) (handles p)
     \<and> (\<exists>d. map_of (heap (mem p)) (mRefP (gInvalidSession (mem p))) = Some d \<and> mId d = 0)
     \<and> gNextSessionId (mem p) \<noteq> 0
     \<and> gInvalidSession (mem p) = \<lparr>mRefP = 1\<rparr>"

text \<open>
  Between two states, no record allocated in both has changed a sequence number.
\<close>

definition seq_frame :: "world \<Rightarrow> world \<Rightarrow> bool" where
  "seq_frame w w' \<longleftrightarrow>
     (\<forall>a d d'. map_of (heap w) a = Some d \<and> map_of (heap w') a = Some d'
        \<longrightarrow> mRecvSeq d' = mRecvSeq d \<and> mSendSeq d' = mSendSeq d)"

text \<open>
  The identifier that the \<open>k\<close>-th call of \<open>GetNextSessionId\<close> returns (counting from 0)
  when the counter is \<open>c\<close> before the first call.
\<close>

definition nth_id :: "ushort \<Rightarrow> nat \<Rightarrow> ushort" where
  "nth_id c k = of_nat ((unat c - 1 + k) mod 65535 + 1)"

subsection \<open>Example values\<close>

definition blowfish :: EncryptAttributes where
  "blowfish = \<lparr>mEncryptMode = ENCRYPT_BLOWFISH, mIsSequenced = True, mIsSession = True,
                mEncryptAll = False\<rparr>"

text \<open>The sentinel's record with both sequence numbers at the largest value.\<close>

definition stuck_world :: world where
  "stuck_world =
     store (static_init 0) \<lparr>mRefP = 1\<rparr>
       (SessionData_ctor\<lparr>mRecvSeq := 65535, mSendSeq := 65535\<rparr>)"

text \<open>A rendering of times, standing for the C library's.\<close>

definition example_ctime :: "int \<Rightarrow> string" where
  "example_ctime t = ''Thu Jan 01 00:00:00 1970'' @ [CHR 0x0A]"

text \<open>
  The state after one default construction: the client's only object shares the
  sentinel's record, whose reference count is 2.
\<close>

definition shared_world :: world where
  "shared_world = store (static_init 0) \<lparr>mRefP = 1\<rparr> (SessionData_ctor\<lparr>mRefCt := 2\<rparr>)"

definition one_default :: prog where
  "one_default = \<lparr>mem = shared_world, vars = [\<lparr>mRefP = 1\<rparr>]\<rparr>"

text \<open>The same state after the sequence number 5 was accepted for receiving.\<close>

definition one_default_recv5 :: prog where
  "one_default_recv5 =
     \<lparr>mem = store shared_world \<lparr>mRefP = 1\<rparr> (SessionData_ctor\<lparr>mRefCt := 2, mRecvSeq := 5\<rparr>),
      vars = [\<lparr>mRefP = 1\<rparr>]\<rparr>"

subsection \<open>Basic facts about the store\<close>

lemma deref_store:
  "deref (store w s d) s' = (if mRefP s' = mRefP s then Inr d else deref w s')"
  by (simp add: deref_def store_def update_conv')

lemma store_fields [simp]:
  "gNextSessionId (store w s d) = gNextSessionId w"
  "gInvalidSession (store w s d) = gInvalidSession w"
  "deleted (store w s d) = deleted w"
  "clock (store w s d) = clock w"
  by (simp_all add: store_def)

lemma map_of_store:
  "map_of (heap (store w s d)) p = (if p = mRefP s then Some d else map_of (heap w) p)"
  by (simp add: store_def update_conv')

lemma top_addr_ge: "map_of h p = Some d \<Longrightarrow> p \<le> top_addr h"
  by (induction h) (auto split: if_splits)

lemma new_addr_fresh: "map_of h (new_addr h) = None"
proof (cases "map_of h (new_addr h)")
  case None
  then show ?thesis .
next
  case (Some d)
  then have "new_addr h \<le> top_addr h" by (rule top_addr_ge)
  then show ?thesis by (simp add: new_addr_def)
qed

lemmas run_defs = static_init_def Session_ctor_id_def Session_ctor_init_def new_SessionData_def
  new_addr_def store_def Let_def Init_def deref_def release_def GetNextSessionId_def Touch_def
  InterlockedDecrement_def InterlockedIncrement_def delete_SessionData_def SessionData_dtor_def
  delete_obj_def Session_ctor_def Session_copy_def Session_dtor_def Session_assign_def
  IsValid_def TestSetRecvSeq_def TestSetSendSeq_def

lemma static_init_eq:
  "static_init t = \<lparr>heap = [(1, SessionData_ctor)], gNextSessionId = 1,
      gInvalidSession = \<lparr>mRefP = 1\<rparr>, deleted = [], clock = t\<rparr>"
  by (simp add: run_defs SessionData_ctor_def)

lemma deref_sentinel_static_init:
  "deref (static_init t) \<lparr>mRefP = 1\<rparr> = Inr SessionData_ctor"
  by (simp add: static_init_eq deref_def)

lemma ctor_init_blowfish_unkeyed:
  "Session_ctor_init (static_init 0) blowfish None None 0 =
     Inr (\<lparr>mRefP = 2\<rparr>,
          \<lparr>heap = [(1, SessionData_ctor),
                   (2, SessionData_ctor\<lparr>mId := 1, mEncryptAttr := blowfish\<rparr>)],
           gNextSessionId = 2, gInvalidSession = \<lparr>mRefP = 1\<rparr>, deleted = [],
           clock = 0\<rparr>)"
  by (simp add: run_defs SessionData_ctor_def)


subsection \<open>The effect of the operations on the store\<close>

lemma deref_Inr: "deref w s = Inr d \<longleftrightarrow> map_of (heap w) (mRefP s) = Some d"
  by (simp add: deref_def split: option.splits)

lemma deref_Inl: "deref w s = Inl e \<longleftrightarrow> (map_of (heap w) (mRefP s) = None \<and> e = DanglingPointer)"
  by (auto simp add: deref_def split: option.splits)

lemma InterlockedIncrement_live:
  assumes "map_of (heap w) (mRefP s) = Some d"
  shows "InterlockedIncrement w s = Inr (mRefCt d + 1, store w s (d\<lparr>mRefCt := mRefCt d + 1\<rparr>))"
  using assms by (simp add: InterlockedIncrement_def deref_def)

lemma release_live:
  assumes "map_of (heap w) (mRefP s) = Some d"
  shows "\<exists>w'. release w s = Inr w'
     \<and> map_of (heap w') = (if mRefCt d - 1 \<le> 0 then (map_of (heap w))(mRefP s := None)
                            else (map_of (heap w))(mRefP s \<mapsto> d\<lparr>mRefCt := mRefCt d - 1\<rparr>))
     \<and> deleted w' = (if mRefCt d - 1 \<le> 0 then SessionData_dtor d (deleted w) else deleted w)
     \<and> gNextSessionId w' = gNextSessionId w \<and> gInvalidSession w' = gInvalidSession w
     \<and> clock w' = clock w"
  using assms
  by (auto simp add: release_def InterlockedDecrement_def deref_def delete_SessionData_def
       store_def update_conv' delete_conv' SessionData_dtor_def)

lemma new_SessionData_effect:
  "new_SessionData w = (s, w') \<Longrightarrow>
     mRefP s = new_addr (heap w) \<and> map_of (heap w) (mRefP s) = None
     \<and> map_of (heap w') = (map_of (heap w))(mRefP s \<mapsto> SessionData_ctor)
     \<and> deleted w' = deleted w
     \<and> gNextSessionId w' = gNextSessionId w \<and> gInvalidSession w' = gInvalidSession w
     \<and> clock w' = clock w"
  by (auto simp add: new_SessionData_def Let_def update_conv' new_addr_fresh)

lemma GetNextSessionId_fields:
  "heap (snd (GetNextSessionId w)) = heap w"
  "gInvalidSession (snd (GetNextSessionId w)) = gInvalidSession w"
  "deleted (snd (GetNextSessionId w)) = deleted w"
  "clock (snd (GetNextSessionId w)) = clock w"
  "fst (GetNextSessionId w) = gNextSessionId w"
  by (simp_all add: GetNextSessionId_def Let_def)

lemma GetNextSessionId_nonzero:
  "gNextSessionId (snd (GetNextSessionId w)) \<noteq> 0"
  by (simp add: GetNextSessionId_def Let_def)

lemma uint_pos_iff: "0 < uint (x :: ushort) \<longleftrightarrow> x \<noteq> 0"
  by (metis less_le uint_0_iff uint_ge_0)

lemma Init_in_place:
  assumes "map_of (heap w) (mRefP this) = Some d0" and "\<not> 1 < mRefCt d0"
  shows "\<exists>w'. Init w this theAttr theKeyP theCertP theId = Inr (this, w')
     \<and> map_of (heap w') = (map_of (heap w))(mRefP this \<mapsto> initialised w d0 theAttr theKeyP theCertP theId)
     \<and> gNextSessionId w' = (if theId \<noteq> 0 then gNextSessionId w
                              else gNextSessionId (snd (GetNextSessionId w)))
     \<and> gInvalidSession w' = gInvalidSession w \<and> deleted w' = deleted w \<and> clock w' = clock w"
  using assms
  by (simp add: Init_def deref_def Touch_def store_def update_conv' Let_def uint_pos_iff
        initialised_def GetNextSessionId_def split_def)

lemma Init_detach:
  assumes "map_of (heap w) (mRefP this) = Some d0" and "1 < mRefCt d0"
  shows "\<exists>this' w'. Init w this theAttr theKeyP theCertP theId = Inr (this', w')
     \<and> map_of (heap w) (mRefP this') = None
     \<and> map_of (heap w') = (map_of (heap w))
           (mRefP this \<mapsto> d0\<lparr>mRefCt := mRefCt d0 - 1\<rparr>,
            mRefP this' \<mapsto> initialised w SessionData_ctor theAttr theKeyP theCertP theId)
     \<and> gNextSessionId w' = (if theId \<noteq> 0 then gNextSessionId w
                              else gNextSessionId (snd (GetNextSessionId w)))
     \<and> gInvalidSession w' = gInvalidSession w \<and> deleted w' = deleted w \<and> clock w' = clock w"
proof -
  from release_live [OF assms(1)] assms(2) obtain w1 where
    r: "release w this = Inr w1"
       "map_of (heap w1) = (map_of (heap w))(mRefP this \<mapsto> d0\<lparr>mRefCt := mRefCt d0 - 1\<rparr>)"
       "deleted w1 = deleted w" "gNextSessionId w1 = gNextSessionId w"
       "gInvalidSession w1 = gInvalidSession w" "clock w1 = clock w"
    by auto
  obtain s w2 where n: "new_SessionData w1 = (s, w2)"
    by (cases "new_SessionData w1")
  note e = new_SessionData_effect [OF n]
  from e r(2) have fresh: "mRefP s \<noteq> mRefP this" "map_of (heap w) (mRefP s) = None"
    by (auto split: if_splits)
  have d: "deref w2 s = Inr SessionData_ctor"
    using e by (simp add: deref_def)
  have "Init w this theAttr theKeyP theCertP theId =
          Inr (s, store (if theId \<noteq> 0 then w2 else snd (GetNextSessionId w2)) s
                    (initialised w SessionData_ctor theAttr theKeyP theCertP theId))"
    using assms r(1) n d e r(4,6)
    by (simp add: Init_def deref_def Touch_def store_def update_conv' Let_def uint_pos_iff
        initialised_def GetNextSessionId_def split_def)
  moreover have "map_of (heap (store (if theId \<noteq> 0 then w2 else snd (GetNextSessionId w2)) s
                    (initialised w SessionData_ctor theAttr theKeyP theCertP theId)))
        = (map_of (heap w))
           (mRefP this \<mapsto> d0\<lparr>mRefCt := mRefCt d0 - 1\<rparr>,
            mRefP s \<mapsto> initialised w SessionData_ctor theAttr theKeyP theCertP theId)"
    using e r(2) by (simp add: store_def update_conv' GetNextSessionId_fields)
  ultimately show ?thesis
    using fresh e r(3-6)
    by (auto simp add: GetNextSessionId_fields GetNextSessionId_def Let_def)
qed

lemma map_of_store_fun:
  "map_of (heap (store w s d)) = (map_of (heap w))(mRefP s \<mapsto> d)"
  by (simp add: store_def update_conv')

lemma prog_mem_update: "p\<lparr>mem := w\<rparr> = \<lparr>mem = w, vars = vars p\<rparr>"
  by (cases p) simp

lemma Session_assign_live:
  assumes "map_of (heap w) (mRefP this) = Some di" and "map_of (heap w) (mRefP theSessR) = Some dj"
    and "mRefP this \<noteq> mRefP theSessR"
  shows "\<exists>w'. Session_assign w this theSessR = Inr (this\<lparr>mRefP := mRefP theSessR\<rparr>, w')
     \<and> map_of (heap w') =
           (if mRefCt di - 1 \<le> 0
            then (map_of (heap w))(mRefP theSessR \<mapsto> dj\<lparr>mRefCt := mRefCt dj + 1\<rparr>,
                                   mRefP this := None)
            else (map_of (heap w))(mRefP theSessR \<mapsto> dj\<lparr>mRefCt := mRefCt dj + 1\<rparr>,
                                   mRefP this \<mapsto> di\<lparr>mRefCt := mRefCt di - 1\<rparr>))
     \<and> deleted w' = (if mRefCt di - 1 \<le> 0 then SessionData_dtor di (deleted w) else deleted w)
     \<and> gNextSessionId w' = gNextSessionId w \<and> gInvalidSession w' = gInvalidSession w
     \<and> clock w' = clock w"
proof -
  let ?w1 = "store w theSessR (dj\<lparr>mRefCt := mRefCt dj + 1\<rparr>)"
  have i: "InterlockedIncrement w theSessR = Inr (mRefCt dj + 1, ?w1)"
    by (rule InterlockedIncrement_live [OF assms(2)])
  have l: "map_of (heap ?w1) (mRefP this) = Some di"
    using assms(1,3) by (simp add: map_of_store_fun)
  from release_live [OF l] obtain w' where
    r: "release ?w1 this = Inr w'"
       "map_of (heap w') = (if mRefCt di - 1 \<le> 0 then (map_of (heap ?w1))(mRefP this := None)
                            else (map_of (heap ?w1))(mRefP this \<mapsto> di\<lparr>mRefCt := mRefCt di - 1\<rparr>))"
       "deleted w' = (if mRefCt di - 1 \<le> 0 then SessionData_dtor di (deleted ?w1) else deleted ?w1)"
       "gNextSessionId w' = gNextSessionId ?w1" "gInvalidSession w' = gInvalidSession ?w1"
       "clock w' = clock ?w1"
    by blast
  have "Session_assign w this theSessR = Inr (this\<lparr>mRefP := mRefP theSessR\<rparr>, w')"
    using assms(3) i r(1) by (simp add: Session_assign_def)
  then show ?thesis
    using r(2-6) by (simp add: map_of_store_fun)
qed

lemma initialised_mRefCt [simp]:
  "mRefCt (initialised w d theAttr theKeyP theCertP theId) = mRefCt d"
  by (simp add: initialised_def)

lemma Session_ctor_init_effect:
  "\<exists>s w'. Session_ctor_init w theAttr theKeyP theCertP theId = Inr (s, w')
     \<and> mRefP s = new_addr (heap w)
     \<and> map_of (heap w) (mRefP s) = None
     \<and> map_of (heap w') = (map_of (heap w))
           (mRefP s \<mapsto> initialised w SessionData_ctor theAttr theKeyP theCertP theId)
     \<and> gNextSessionId w' = (if theId \<noteq> 0 then gNextSessionId w
                              else gNextSessionId (snd (GetNextSessionId w)))
     \<and> gInvalidSession w' = gInvalidSession w \<and> deleted w' = deleted w \<and> clock w' = clock w"
proof -
  obtain s w1 where n: "new_SessionData w = (s, w1)"
    by (cases "new_SessionData w")
  note e = new_SessionData_effect [OF n]
  have l: "map_of (heap w1) (mRefP s) = Some SessionData_ctor"
    using e by simp
  have one: "\<not> 1 < mRefCt SessionData_ctor"
    by (simp add: SessionData_ctor_def)
  from Init_in_place [OF l one, of theAttr theKeyP theCertP theId] obtain w' where
    i: "Init w1 s theAttr theKeyP theCertP theId = Inr (s, w')"
       "map_of (heap w') = (map_of (heap w1))
           (mRefP s \<mapsto> initialised w1 SessionData_ctor theAttr theKeyP theCertP theId)"
       "gNextSessionId w' = (if theId \<noteq> 0 then gNextSessionId w1
                              else gNextSessionId (snd (GetNextSessionId w1)))"
       "gInvalidSession w' = gInvalidSession w1" "deleted w' = deleted w1" "clock w' = clock w1"
    by blast
  have "initialised w1 SessionData_ctor theAttr theKeyP theCertP theId
          = initialised w SessionData_ctor theAttr theKeyP theCertP theId"
    using e by (simp add: initialised_def)
  moreover have "gNextSessionId (snd (GetNextSessionId w1)) = gNextSessionId (snd (GetNextSessionId w))"
    using e by (simp add: GetNextSessionId_def Let_def)
  ultimately show ?thesis
    using n i e by (simp add: Session_ctor_init_def new_addr_fresh)
qed

subsection \<open>Reference counts\<close>

lemma cnt_Nil [simp]: "cnt a [] = 0"
  by (simp add: cnt_def)

lemma cnt_Cons [simp]: "cnt a (s # vs) = (if mRefP s = a then 1 else 0) + cnt a vs"
  by (simp add: cnt_def)

lemma cnt_append [simp]: "cnt a (xs @ ys) = cnt a xs + cnt a ys"
  by (simp add: cnt_def)

lemma cnt_nonneg: "0 \<le> cnt a vs"
  by (simp add: cnt_def)

lemma cnt_remove:
  assumes "i < length vs"
  shows "cnt a (take i vs @ drop (Suc i) vs) = cnt a vs - (if mRefP (vs ! i) = a then 1 else 0)"
proof -
  have "cnt a vs = cnt a (take i vs @ vs ! i # drop (Suc i) vs)"
    using assms by (simp only: id_take_nth_drop [symmetric])
  then show ?thesis by simp
qed

lemma cnt_update:
  assumes "i < length vs"
  shows "cnt a (vs[i := s]) = cnt a vs - (if mRefP (vs ! i) = a then 1 else 0)
                                + (if mRefP s = a then 1 else 0)"
proof -
  have "vs[i := s] = take i vs @ s # drop (Suc i) vs"
    using assms by (rule upd_conv_take_nth_drop)
  then show ?thesis using cnt_remove [OF assms, of a] by simp
qed

lemma cnt_nth_pos: "i < length vs \<Longrightarrow> 1 \<le> cnt (mRefP (vs ! i)) vs"
  using cnt_remove [of i vs "mRefP (vs ! i)"] cnt_nonneg [of "mRefP (vs ! i)" "take i vs @ drop (Suc i) vs"]
  by simp

lemma coherent_live:
  "coherent H hs \<Longrightarrow> s \<in> set hs \<Longrightarrow> \<exists>d. H (mRefP s) = Some d \<and> 1 \<le> mRefCt d"
proof -
  assume c: "coherent H hs" and m: "s \<in> set hs"
  from m obtain i where i: "i < length hs" "hs ! i = s" by (auto simp: in_set_conv_nth)
  from cnt_nth_pos [OF i(1)] i(2) have "1 \<le> cnt (mRefP s) hs" by simp
  with c show ?thesis
    by (auto simp: coherent_def split: option.splits dest!: spec [of _ "mRefP s"])
qed

lemma coherent_inc:
  assumes "coherent H hs" and "H a = Some d"
    and "\<And>b. cnt b hs' = cnt b hs + (if b = a then 1 else 0)"
  shows "coherent (H(a \<mapsto> d\<lparr>mRefCt := mRefCt d + 1\<rparr>)) hs'"
  unfolding coherent_def
proof
  fix b
  from assms(1) have "case H b of None \<Rightarrow> cnt b hs = 0 | Some d \<Rightarrow> mRefCt d = cnt b hs"
    by (simp add: coherent_def)
  with assms(2,3) show "case (H(a \<mapsto> d\<lparr>mRefCt := mRefCt d + 1\<rparr>)) b of
      None \<Rightarrow> cnt b hs' = 0 | Some d \<Rightarrow> mRefCt d = cnt b hs'"
    by (cases "b = a") (auto split: option.splits)
qed

lemma coherent_dec:
  assumes "coherent H hs" and "H a = Some d"
    and "\<And>b. cnt b hs' = cnt b hs - (if b = a then 1 else 0)"
  shows "coherent (if mRefCt d - 1 \<le> 0 then H(a := None)
                   else H(a \<mapsto> d\<lparr>mRefCt := mRefCt d - 1\<rparr>)) hs'"
  unfolding coherent_def
proof
  fix b
  from assms(1) have h: "case H b of None \<Rightarrow> cnt b hs = 0 | Some d \<Rightarrow> mRefCt d = cnt b hs"
    by (simp add: coherent_def)
  have "0 \<le> cnt a hs'" by (rule cnt_nonneg)
  with assms(3) [of a] have "1 \<le> cnt a hs" by simp
  with h assms(2,3) show "case (if mRefCt d - 1 \<le> 0 then H(a := None)
                   else H(a \<mapsto> d\<lparr>mRefCt := mRefCt d - 1\<rparr>)) b of
      None \<Rightarrow> cnt b hs' = 0 | Some d \<Rightarrow> mRefCt d = cnt b hs'"
    by (cases "b = a") (auto split: option.splits)
qed

lemma coherent_new:
  assumes "coherent H hs" and "H b = None" and "mRefCt d = 1"
    and "\<And>c. cnt c hs' = cnt c hs + (if c = b then 1 else 0)"
  shows "coherent (H(b \<mapsto> d)) hs'"
  unfolding coherent_def
proof
  fix c
  from assms(1) have "case H c of None \<Rightarrow> cnt c hs = 0 | Some d \<Rightarrow> mRefCt d = cnt c hs"
    by (simp add: coherent_def)
  with assms(2,3,4) show "case (H(b \<mapsto> d)) c of
      None \<Rightarrow> cnt c hs' = 0 | Some d \<Rightarrow> mRefCt d = cnt c hs'"
    by (cases "c = b") (auto split: option.splits)
qed

lemma coherent_same:
  assumes "coherent H hs" and "H a = Some d" and "mRefCt d' = mRefCt d"
    and "\<And>b. cnt b hs' = cnt b hs"
  shows "coherent (H(a \<mapsto> d')) hs'"
  unfolding coherent_def
proof
  fix b
  from assms(1) have "case H b of None \<Rightarrow> cnt b hs = 0 | Some d \<Rightarrow> mRefCt d = cnt b hs"
    by (simp add: coherent_def)
  with assms(2,3,4) show "case (H(a \<mapsto> d')) b of
      None \<Rightarrow> cnt b hs' = 0 | Some d \<Rightarrow> mRefCt d = cnt b hs'"
    by (cases "b = a") (auto split: option.splits)
qed

lemma coherent_count: "coherent H hs \<Longrightarrow> H a = Some d \<Longrightarrow> mRefCt d = cnt a hs"
  by (auto simp: coherent_def split: option.splits dest!: spec [of _ a])

lemma coherent_dead: "coherent H hs \<Longrightarrow> H a = None \<Longrightarrow> cnt a hs = 0"
  by (auto simp: coherent_def split: option.splits dest!: spec [of _ a])

lemma consistent_var_live:
  assumes "consistent p" and "i < length (vars p)"
  shows "\<exists>d. map_of (heap (mem p)) (mRefP (vars p ! i)) = Some d \<and> 1 \<le> mRefCt d"
proof -
  from assms(2) have "vars p ! i \<in> set (handles p)" by (simp add: handles_def)
  with assms(1) show ?thesis by (auto simp: consistent_def dest: coherent_live)
qed

lemma consistentI:
  assumes "coherent (map_of (heap w')) (gInvalidSession w' # vs')"
    and "\<exists>d. map_of (heap w') (mRefP (gInvalidSession w')) = Some d \<and> mId d = 0"
    and "gNextSessionId w' \<noteq> 0"
    and "gInvalidSession w' = \<lparr>mRefP = 1\<rparr>"
  shows "consistent \<lparr>mem = w', vars = vs'\<rparr>"
  using assms by (simp add: consistent_def handles_def)

lemma consistentD:
  assumes "consistent p"
  shows "coherent (map_of (heap (mem p))) (gInvalidSession (mem p) # vars p)"
    and "\<exists>d. map_of (heap (mem p)) (mRefP (gInvalidSession (mem p))) = Some d \<and> mId d = 0"
    and "gNextSessionId (mem p) \<noteq> 0"
    and "gInvalidSession (mem p) = \<lparr>mRefP = 1\<rparr>"
  using assms unfolding consistent_def handles_def by blast+

lemma pres_add_handle:
  assumes "consistent p" and "map_of (heap (mem p)) (mRefP s) = Some d"
    and "map_of (heap w') = (map_of (heap (mem p)))(mRefP s \<mapsto> d\<lparr>mRefCt := mRefCt d + 1\<rparr>)"
    and "gInvalidSession w' = gInvalidSession (mem p)"
    and "gNextSessionId w' = gNextSessionId (mem p)"
  shows "consistent \<lparr>mem = w', vars = vars p @ [s]\<rparr>"
proof (rule consistentI)
  note c = consistentD [OF assms(1)]
  show "coherent (map_of (heap w')) (gInvalidSession w' # vars p @ [s])"
    unfolding assms(3,4)
    by (rule coherent_inc [OF c(1) assms(2)]) simp
  show "\<exists>d. map_of (heap w') (mRefP (gInvalidSession w')) = Some d \<and> mId d = 0"
    using c(2) assms(2) by (auto simp: assms(3,4))
  show "gNextSessionId w' \<noteq> 0"
    using c(3) by (simp add: assms(5))
  show "gInvalidSession w' = \<lparr>mRefP = 1\<rparr>"
    using c(4) \<open>gInvalidSession w' = gInvalidSession (mem p)\<close> by simp
qed

lemma pres_new_handle:
  assumes "consistent p" and "map_of (heap (mem p)) (mRefP s) = None" and "mRefCt d = 1"
    and "map_of (heap w') = (map_of (heap (mem p)))(mRefP s \<mapsto> d)"
    and "gInvalidSession w' = gInvalidSession (mem p)"
    and "gNextSessionId w' \<noteq> 0"
  shows "consistent \<lparr>mem = w', vars = vars p @ [s]\<rparr>"
proof (rule consistentI)
  note c = consistentD [OF assms(1)]
  show "coherent (map_of (heap w')) (gInvalidSession w' # vars p @ [s])"
    unfolding assms(4,5)
    by (rule coherent_new [OF c(1) assms(2,3)]) simp
  show "\<exists>d. map_of (heap w') (mRefP (gInvalidSession w')) = Some d \<and> mId d = 0"
    using c(2) assms(2) by (auto simp: assms(4,5))
  show "gNextSessionId w' \<noteq> 0" by fact
  show "gInvalidSession w' = \<lparr>mRefP = 1\<rparr>"
    using c(4) \<open>gInvalidSession w' = gInvalidSession (mem p)\<close> by simp
qed

lemma pres_drop_handle:
  assumes "consistent p" and "i < length (vars p)"
    and "map_of (heap (mem p)) (mRefP (vars p ! i)) = Some d"
    and "map_of (heap w') =
           (if mRefCt d - 1 \<le> 0 then (map_of (heap (mem p)))(mRefP (vars p ! i) := None)
            else (map_of (heap (mem p)))(mRefP (vars p ! i) \<mapsto> d\<lparr>mRefCt := mRefCt d - 1\<rparr>))"
    and "gInvalidSession w' = gInvalidSession (mem p)"
    and "gNextSessionId w' = gNextSessionId (mem p)"
  shows "consistent \<lparr>mem = w', vars = take i (vars p) @ drop (Suc i) (vars p)\<rparr>"
proof (rule consistentI)
  note c = consistentD [OF assms(1)]
  let ?a = "mRefP (vars p ! i)"
  let ?g = "gInvalidSession (mem p)"
  have n: "mRefCt d = cnt ?a (?g # vars p)"
    by (rule coherent_count [OF c(1) assms(3)])
  show "coherent (map_of (heap w')) (gInvalidSession w' # take i (vars p) @ drop (Suc i) (vars p))"
    unfolding assms(4,5)
    by (rule coherent_dec [OF c(1) assms(3)]) (simp add: cnt_remove [OF assms(2)] del: cnt_append)
  show "\<exists>d. map_of (heap w') (mRefP (gInvalidSession w')) = Some d \<and> mId d = 0"
  proof (cases "mRefP ?g = ?a")
    case True
    with n cnt_nth_pos [OF assms(2)] have "2 \<le> mRefCt d" by simp
    with True c(2) assms(3) show ?thesis by (auto simp: assms(4,5))
  next
    case False
    with c(2) show ?thesis by (auto simp: assms(4,5))
  qed
  show "gNextSessionId w' \<noteq> 0"
    using c(3) by (simp add: assms(6))
  show "gInvalidSession w' = \<lparr>mRefP = 1\<rparr>"
    using c(4) \<open>gInvalidSession w' = gInvalidSession (mem p)\<close> by simp
qed

lemma pres_same:
  assumes "consistent p" and "map_of (heap (mem p)) a = Some d"
    and "mRefCt d' = mRefCt d" and "mId d' = mId d"
    and "map_of (heap w') = (map_of (heap (mem p)))(a \<mapsto> d')"
    and "gInvalidSession w' = gInvalidSession (mem p)"
    and "gNextSessionId w' = gNextSessionId (mem p)"
  shows "consistent \<lparr>mem = w', vars = vars p\<rparr>"
proof (rule consistentI)
  note c = consistentD [OF assms(1)]
  show "coherent (map_of (heap w')) (gInvalidSession w' # vars p)"
    unfolding assms(5,6)
    by (rule coherent_same [OF c(1) assms(2,3)]) simp
  show "\<exists>d. map_of (heap w') (mRefP (gInvalidSession w')) = Some d \<and> mId d = 0"
    using c(2) assms(2,4) by (auto simp: assms(5,6))
  show "gNextSessionId w' \<noteq> 0"
    using c(3) by (simp add: assms(7))
  show "gInvalidSession w' = \<lparr>mRefP = 1\<rparr>"
    using c(4) \<open>gInvalidSession w' = gInvalidSession (mem p)\<close> by simp
qed

lemma pres_init_in_place:
  assumes "consistent p" and "i < length (vars p)"
    and "map_of (heap (mem p)) (mRefP (vars p ! i)) = Some d" and "\<not> 1 < mRefCt d"
    and "mRefCt d' = mRefCt d"
    and "map_of (heap w') = (map_of (heap (mem p)))(mRefP (vars p ! i) \<mapsto> d')"
    and "gInvalidSession w' = gInvalidSession (mem p)"
    and "gNextSessionId w' \<noteq> 0"
  shows "consistent \<lparr>mem = w', vars = vars p\<rparr>"
proof (rule consistentI)
  note c = consistentD [OF assms(1)]
  let ?a = "mRefP (vars p ! i)"
  let ?g = "gInvalidSession (mem p)"
  have n: "mRefCt d = cnt ?a (?g # vars p)"
    by (rule coherent_count [OF c(1) assms(3)])
  with cnt_nth_pos [OF assms(2)] assms(4) have ne: "mRefP ?g \<noteq> ?a"
    by (auto split: if_splits)
  show "coherent (map_of (heap w')) (gInvalidSession w' # vars p)"
    unfolding assms(6,7)
    by (rule coherent_same [OF c(1) assms(3,5)]) simp
  show "\<exists>d. map_of (heap w') (mRefP (gInvalidSession w')) = Some d \<and> mId d = 0"
    using c(2) ne by (auto simp: assms(6,7))
  show "gNextSessionId w' \<noteq> 0" by fact
  show "gInvalidSession w' = \<lparr>mRefP = 1\<rparr>"
    using c(4) \<open>gInvalidSession w' = gInvalidSession (mem p)\<close> by simp
qed

lemma pres_rebind:
  assumes "consistent p" and "i < length (vars p)"
    and "map_of (heap (mem p)) (mRefP (vars p ! i)) = Some d"
    and "map_of (heap (mem p)) (mRefP s) = None" and "mRefCt d' = 1" and "1 < mRefCt d"
    and "map_of (heap w') = (map_of (heap (mem p)))
           (mRefP (vars p ! i) \<mapsto> d\<lparr>mRefCt := mRefCt d - 1\<rparr>, mRefP s \<mapsto> d')"
    and "gInvalidSession w' = gInvalidSession (mem p)"
    and "gNextSessionId w' \<noteq> 0"
  shows "consistent \<lparr>mem = w', vars = (vars p)[i := s]\<rparr>"
proof (rule consistentI)
  note c = consistentD [OF assms(1)]
  let ?a = "mRefP (vars p ! i)"
  let ?g = "gInvalidSession (mem p)"
  let ?H = "map_of (heap (mem p))"
  let ?hs1 = "?g # take i (vars p) @ drop (Suc i) (vars p)"
  have "coherent (if mRefCt d - 1 \<le> 0 then ?H(?a := None)
                   else ?H(?a \<mapsto> d\<lparr>mRefCt := mRefCt d - 1\<rparr>)) ?hs1"
    by (rule coherent_dec [OF c(1) assms(3)]) (simp add: cnt_remove [OF assms(2)] del: cnt_append)
  with assms(6) have c1: "coherent (?H(?a \<mapsto> d\<lparr>mRefCt := mRefCt d - 1\<rparr>)) ?hs1" by simp
  have ne: "mRefP s \<noteq> ?a" using assms(3,4) by auto
  then have f: "(?H(?a \<mapsto> d\<lparr>mRefCt := mRefCt d - 1\<rparr>)) (mRefP s) = None"
    using assms(4) by simp
  show "coherent (map_of (heap w')) (gInvalidSession w' # (vars p)[i := s])"
    unfolding assms(7,8)
    by (rule coherent_new [OF c1 f assms(5)])
       (simp add: cnt_remove [OF assms(2)] cnt_update [OF assms(2)] del: cnt_append)
  show "\<exists>d. map_of (heap w') (mRefP (gInvalidSession w')) = Some d \<and> mId d = 0"
    using c(2) assms(3,4) by (auto simp: assms(7,8))
  show "gNextSessionId w' \<noteq> 0" by fact
  show "gInvalidSession w' = \<lparr>mRefP = 1\<rparr>"
    using c(4) \<open>gInvalidSession w' = gInvalidSession (mem p)\<close> by simp
qed

lemma pres_assign:
  assumes "consistent p" and "i < length (vars p)"
    and "map_of (heap (mem p)) (mRefP (vars p ! i)) = Some di"
    and "map_of (heap (mem p)) (mRefP s) = Some dj"
    and "mRefP (vars p ! i) \<noteq> mRefP s"
    and "map_of (heap w') =
           (if mRefCt di - 1 \<le> 0
            then (map_of (heap (mem p)))(mRefP s \<mapsto> dj\<lparr>mRefCt := mRefCt dj + 1\<rparr>,
                                         mRefP (vars p ! i) := None)
            else (map_of (heap (mem p)))(mRefP s \<mapsto> dj\<lparr>mRefCt := mRefCt dj + 1\<rparr>,
                                         mRefP (vars p ! i) \<mapsto> di\<lparr>mRefCt := mRefCt di - 1\<rparr>))"
    and "gInvalidSession w' = gInvalidSession (mem p)"
    and "gNextSessionId w' = gNextSessionId (mem p)"
  shows "consistent \<lparr>mem = w', vars = (vars p)[i := s]\<rparr>"
proof (rule consistentI)
  note c = consistentD [OF assms(1)]
  let ?a = "mRefP (vars p ! i)"
  let ?g = "gInvalidSession (mem p)"
  let ?H = "map_of (heap (mem p))"
  let ?H1 = "?H(mRefP s \<mapsto> dj\<lparr>mRefCt := mRefCt dj + 1\<rparr>)"
  have c1: "coherent ?H1 (?g # vars p @ [s])"
    by (rule coherent_inc [OF c(1) assms(4)]) simp
  have l: "?H1 ?a = Some di" using assms(3,5) by simp
  have "coherent (if mRefCt di - 1 \<le> 0 then ?H1(?a := None)
                   else ?H1(?a \<mapsto> di\<lparr>mRefCt := mRefCt di - 1\<rparr>)) (?g # (vars p)[i := s])"
    by (rule coherent_dec [OF c1 l]) (simp add: cnt_update [OF assms(2)])
  then show "coherent (map_of (heap w')) (gInvalidSession w' # (vars p)[i := s])"
    unfolding assms(6,7) by (simp split: if_splits)
  have n: "mRefCt di = cnt ?a (?g # vars p)"
    by (rule coherent_count [OF c(1) assms(3)])
  show "\<exists>d. map_of (heap w') (mRefP (gInvalidSession w')) = Some d \<and> mId d = 0"
  proof (cases "mRefP ?g = ?a")
    case True
    with n cnt_nth_pos [OF assms(2)] have "2 \<le> mRefCt di" by simp
    with True c(2) assms(3,5) show ?thesis by (auto simp: assms(6,7))
  next
    case False
    with c(2) assms(4) show ?thesis by (auto simp: assms(6,7))
  qed
  show "gNextSessionId w' \<noteq> 0"
    using c(3) by (simp add: assms(8))
  show "gInvalidSession w' = \<lparr>mRefP = 1\<rparr>"
    using c(4) \<open>gInvalidSession w' = gInvalidSession (mem p)\<close> by simp
qed

lemma consistent_exec:
  assumes c: "consistent p" and e: "exec ctime cl p = Inr (r, p')"
  shows "consistent p'"
proof (cases cl)
  case CDefault
  from consistentD(2) [OF c] obtain d where
    d: "map_of (heap (mem p)) (mRefP (gInvalidSession (mem p))) = Some d" by blast
  let ?s = "\<lparr>mRefP = mRefP (gInvalidSession (mem p))\<rparr>"
  have d': "map_of (heap (mem p)) (mRefP ?s) = Some d" using d by simp
  from e CDefault InterlockedIncrement_live [OF d]
  have "p' = \<lparr>mem = store (mem p) (gInvalidSession (mem p)) (d\<lparr>mRefCt := mRefCt d + 1\<rparr>),
              vars = vars p @ [?s]\<rparr>"
    by (simp add: constructed_def Session_ctor_def)
  then show ?thesis
    using pres_add_handle [OF c d'] by (simp add: map_of_store_fun)
next
  case (CConstruct theAttr theKeyP theCertP theId)
  from Session_ctor_init_effect [of "mem p" theAttr theKeyP theCertP theId] obtain s w' where
    i: "Session_ctor_init (mem p) theAttr theKeyP theCertP theId = Inr (s, w')"
       "map_of (heap (mem p)) (mRefP s) = None"
       "map_of (heap w') = (map_of (heap (mem p)))
           (mRefP s \<mapsto> initialised (mem p) SessionData_ctor theAttr theKeyP theCertP theId)"
       "gNextSessionId w' = (if theId \<noteq> 0 then gNextSessionId (mem p)
                              else gNextSessionId (snd (GetNextSessionId (mem p))))"
       "gInvalidSession w' = gInvalidSession (mem p)"
    by blast
  have nz: "gNextSessionId w' \<noteq> 0"
    using i(4) consistentD(3) [OF c] by (simp add: GetNextSessionId_nonzero)
  have one: "mRefCt (initialised (mem p) SessionData_ctor theAttr theKeyP theCertP theId) = 1"
    by (simp add: SessionData_ctor_def)
  from e CConstruct i(1) have "p' = \<lparr>mem = w', vars = vars p @ [s]\<rparr>"
    by (simp add: constructed_def)
  then show ?thesis
    using pres_new_handle [OF c i(2) one i(3) i(5) nz] by simp
next
  case (CSearch theId)
  obtain s w1 where n: "new_SessionData (mem p) = (s, w1)"
    by (cases "new_SessionData (mem p)")
  note f = new_SessionData_effect [OF n]
  let ?w' = "store w1 s (SessionData_ctor\<lparr>mId := theId\<rparr>)"
  from e CSearch n have p': "p' = \<lparr>mem = ?w', vars = vars p @ [s]\<rparr>"
    by (simp add: constructed_def Session_ctor_id_def)
  have "consistent \<lparr>mem = ?w', vars = vars p @ [s]\<rparr>"
  proof (rule pres_new_handle [OF c])
    show "map_of (heap (mem p)) (mRefP s) = None" using f by (simp add: new_addr_fresh)
    show "mRefCt (SessionData_ctor\<lparr>mId := theId\<rparr>) = 1" by (simp add: SessionData_ctor_def)
    show "map_of (heap ?w') = (map_of (heap (mem p)))(mRefP s \<mapsto> SessionData_ctor\<lparr>mId := theId\<rparr>)"
      using f by (simp add: map_of_store_fun)
    show "gInvalidSession ?w' = gInvalidSession (mem p)" using f by simp
    show "gNextSessionId ?w' \<noteq> 0" using f consistentD(3) [OF c] by simp
  qed
  with p' show ?thesis by simp
next
  case (CCopy i)
  with e have i: "i < length (vars p)" by (simp split: if_splits)
  from consistent_var_live [OF c i] obtain d where
    d: "map_of (heap (mem p)) (mRefP (vars p ! i)) = Some d" by blast
  let ?s = "\<lparr>mRefP = mRefP (vars p ! i)\<rparr>"
  have d': "map_of (heap (mem p)) (mRefP ?s) = Some d" using d by simp
  from e CCopy i InterlockedIncrement_live [OF d]
  have "p' = \<lparr>mem = store (mem p) (vars p ! i) (d\<lparr>mRefCt := mRefCt d + 1\<rparr>),
              vars = vars p @ [?s]\<rparr>"
    by (simp add: constructed_def Session_copy_def)
  then show ?thesis
    using pres_add_handle [OF c d'] by (simp add: map_of_store_fun)
next
  case (CDestroy i)
  with e have i: "i < length (vars p)" by (simp split: if_splits)
  from consistent_var_live [OF c i] obtain d where
    d: "map_of (heap (mem p)) (mRefP (vars p ! i)) = Some d" by blast
  from release_live [OF d] obtain w' where
    r: "release (mem p) (vars p ! i) = Inr w'"
       "map_of (heap w') =
           (if mRefCt d - 1 \<le> 0 then (map_of (heap (mem p)))(mRefP (vars p ! i) := None)
            else (map_of (heap (mem p)))(mRefP (vars p ! i) \<mapsto> d\<lparr>mRefCt := mRefCt d - 1\<rparr>))"
       "gInvalidSession w' = gInvalidSession (mem p)"
       "gNextSessionId w' = gNextSessionId (mem p)"
    by blast
  from e CDestroy i r(1)
  have "p' = \<lparr>mem = w', vars = take i (vars p) @ drop (Suc i) (vars p)\<rparr>"
    by (simp add: Session_dtor_def)
  then show ?thesis
    using pres_drop_handle [OF c i d r(2,3,4)] by simp
next
  case (CAssign i j)
  with e have i: "i < length (vars p)" and j: "j < length (vars p)"
    by (simp_all split: if_splits)
  show ?thesis
  proof (cases "mRefP (vars p ! i) = mRefP (vars p ! j)")
    case True
    with e CAssign i j have "p' = \<lparr>mem = mem p, vars = (vars p)[i := vars p ! i]\<rparr>"
      by (simp add: rebound_def Session_assign_def)
    then have "p' = p" by simp
    with c show ?thesis by simp
  next
    case False
    from consistent_var_live [OF c i] obtain di where
      di: "map_of (heap (mem p)) (mRefP (vars p ! i)) = Some di" by blast
    from consistent_var_live [OF c j] obtain dj where
      dj: "map_of (heap (mem p)) (mRefP (vars p ! j)) = Some dj" by blast
    let ?s = "(vars p ! i)\<lparr>mRefP := mRefP (vars p ! j)\<rparr>"
    have dj': "map_of (heap (mem p)) (mRefP ?s) = Some dj" using dj by simp
    have ne: "mRefP (vars p ! i) \<noteq> mRefP ?s" using False by simp
    from Session_assign_live [OF di dj False] obtain w' where
      a: "Session_assign (mem p) (vars p ! i) (vars p ! j) = Inr (?s, w')"
         "map_of (heap w') =
           (if mRefCt di - 1 \<le> 0
            then (map_of (heap (mem p)))(mRefP (vars p ! j) \<mapsto> dj\<lparr>mRefCt := mRefCt dj + 1\<rparr>,
                                   mRefP (vars p ! i) := None)
            else (map_of (heap (mem p)))(mRefP (vars p ! j) \<mapsto> dj\<lparr>mRefCt := mRefCt dj + 1\<rparr>,
                                   mRefP (vars p ! i) \<mapsto> di\<lparr>mRefCt := mRefCt di - 1\<rparr>))"
         "gNextSessionId w' = gNextSessionId (mem p)" "gInvalidSession w' = gInvalidSession (mem p)"
      by blast
    from e CAssign i j a(1) have "p' = \<lparr>mem = w', vars = (vars p)[i := ?s]\<rparr>"
      by (simp add: rebound_def)
    moreover have "consistent \<lparr>mem = w', vars = (vars p)[i := ?s]\<rparr>"
      by (rule pres_assign [OF c i di dj' ne _ a(4) a(3)]) (simp add: a(2))
    ultimately show ?thesis by simp
  qed
next
  case (CIsValid i)
  with e have "p' = p" by (auto split: if_splits sum.splits)
  with c show ?thesis by simp
next
  case (CInit i theAttr theKeyP theCertP theId)
  with e have i: "i < length (vars p)" by (simp split: if_splits)
  from consistent_var_live [OF c i] obtain d where
    d: "map_of (heap (mem p)) (mRefP (vars p ! i)) = Some d" by blast
  show ?thesis
  proof (cases "1 < mRefCt d")
    case True
    from Init_detach [OF d True, of theAttr theKeyP theCertP theId] obtain s w' where
      n: "Init (mem p) (vars p ! i) theAttr theKeyP theCertP theId = Inr (s, w')"
         "map_of (heap (mem p)) (mRefP s) = None"
         "map_of (heap w') = (map_of (heap (mem p)))
           (mRefP (vars p ! i) \<mapsto> d\<lparr>mRefCt := mRefCt d - 1\<rparr>,
            mRefP s \<mapsto> initialised (mem p) SessionData_ctor theAttr theKeyP theCertP theId)"
         "gNextSessionId w' = (if theId \<noteq> 0 then gNextSessionId (mem p)
                              else gNextSessionId (snd (GetNextSessionId (mem p))))"
         "gInvalidSession w' = gInvalidSession (mem p)"
      by blast
    have nz: "gNextSessionId w' \<noteq> 0"
      using n(4) consistentD(3) [OF c] by (simp add: GetNextSessionId_nonzero)
    have one: "mRefCt (initialised (mem p) SessionData_ctor theAttr theKeyP theCertP theId) = 1"
      by (simp add: SessionData_ctor_def)
    from e CInit i n(1) have "p' = \<lparr>mem = w', vars = (vars p)[i := s]\<rparr>"
      by (simp add: rebound_def)
    then show ?thesis
      using pres_rebind [OF c i d n(2) one True n(3) n(5) nz] by simp
  next
    case False
    from Init_in_place [OF d False, of theAttr theKeyP theCertP theId] obtain w' where
      n: "Init (mem p) (vars p ! i) theAttr theKeyP theCertP theId = Inr (vars p ! i, w')"
         "map_of (heap w') = (map_of (heap (mem p)))
            (mRefP (vars p ! i) \<mapsto> initialised (mem p) d theAttr theKeyP theCertP theId)"
         "gNextSessionId w' = (if theId \<noteq> 0 then gNextSessionId (mem p)
                              else gNextSessionId (snd (GetNextSessionId (mem p))))"
         "gInvalidSession w' = gInvalidSession (mem p)"
      by blast
    have nz: "gNextSessionId w' \<noteq> 0"
      using n(3) consistentD(3) [OF c] by (simp add: GetNextSessionId_nonzero)
    from e CInit i n(1) have "p' = \<lparr>mem = w', vars = vars p\<rparr>"
      by (simp add: rebound_def)
    then show ?thesis
      using pres_init_in_place [OF c i d False _ n(2) n(4) nz] by simp
  qed
next
  case (CTouch i)
  with e have i: "i < length (vars p)" by (simp split: if_splits)
  from consistent_var_live [OF c i] obtain d where
    d: "map_of (heap (mem p)) (mRefP (vars p ! i)) = Some d" by blast
  let ?d' = "d\<lparr>mLastAction := clock (mem p)\<rparr>"
  from e CTouch i d have "p' = \<lparr>mem = store (mem p) (vars p ! i) ?d', vars = vars p\<rparr>"
    by (simp add: Touch_def deref_def prog_mem_update)
  then show ?thesis
    using pres_same [OF c d, of ?d'] by (simp add: map_of_store_fun)
next
  case (CTestSetRecvSeq i theSeq isReliable)
  with e have i: "i < length (vars p)" by (simp split: if_splits)
  from consistent_var_live [OF c i] obtain d where
    d: "map_of (heap (mem p)) (mRefP (vars p ! i)) = Some d" by blast
  let ?d' = "d\<lparr>mRecvSeq := theSeq\<rparr>"
  from e CTestSetRecvSeq i d
  have "p' = p \<or> p' = \<lparr>mem = store (mem p) (vars p ! i) ?d', vars = vars p\<rparr>"
    by (auto simp add: TestSetRecvSeq_def deref_def prog_mem_update Let_def split: if_splits)
  then show ?thesis
    using c pres_same [OF c d, of ?d'] by (auto simp add: map_of_store_fun)
next
  case (CTestSetSendSeq i theSeq isReliable)
  with e have i: "i < length (vars p)" by (simp split: if_splits)
  from consistent_var_live [OF c i] obtain d where
    d: "map_of (heap (mem p)) (mRefP (vars p ! i)) = Some d" by blast
  let ?d' = "d\<lparr>mSendSeq := theSeq\<rparr>"
  from e CTestSetSendSeq i d
  have "p' = p \<or> p' = \<lparr>mem = store (mem p) (vars p ! i) ?d', vars = vars p\<rparr>"
    by (auto simp add: TestSetSendSeq_def deref_def prog_mem_update Let_def split: if_splits)
  then show ?thesis
    using c pres_same [OF c d, of ?d'] by (auto simp add: map_of_store_fun)
next
  case (CDump i verbose)
  with e have "p' = p" by (auto split: if_splits sum.splits)
  with c show ?thesis by simp
qed

lemma consistent_initial: "consistent (initial t)"
  by (simp add: consistent_def initial_def static_init_eq handles_def coherent_def
        SessionData_ctor_def)

lemma consistent_tick: "consistent p \<Longrightarrow> consistent (p\<lparr>mem := (mem p)\<lparr>clock := t\<rparr>\<rparr>)"
  by (auto simp add: consistent_def handles_def)

lemma reachable_consistent: "reachable p \<Longrightarrow> consistent p"
proof (induction rule: reachable.induct)
  case (start t)
  show ?case by (rule consistent_initial)
next
  case (tick p t)
  then show ?case by (simp add: consistent_tick)
next
  case (call p ctime c r p')
  then show ?case by (blast intro: consistent_exec)
qed

subsection \<open>The identifier counter\<close>

lemma unat_nth_id: "unat (nth_id c k) = (unat c - 1 + k) mod 65535 + 1"
proof -
  have "(unat c - 1 + k) mod 65535 < 65535" by simp
  then have "(unat c - 1 + k) mod 65535 + 1 < 2 ^ LENGTH(16)" by simp
  then show ?thesis
    unfolding nth_id_def by (simp only: unat_of_nat mod_less)
qed

lemma nth_id_nonzero: "nth_id c k \<noteq> 0"
proof
  assume "nth_id c k = 0"
  then have "unat (nth_id c k) = 0" by simp
  then show False by (simp add: unat_nth_id)
qed

lemma unat_ushort_bounds:
  assumes "(c :: ushort) \<noteq> 0"
  shows "1 \<le> unat c" and "unat c \<le> 65535"
proof -
  from assms have "unat c \<noteq> 0" by (simp add: unat_0_iff)
  then show "1 \<le> unat c" by simp
  have "unat c < 2 ^ LENGTH(16)" by (rule unsigned_less)
  then show "unat c \<le> 65535" by simp
qed

lemma nth_id_0: "c \<noteq> 0 \<Longrightarrow> nth_id c 0 = c"
proof -
  assume "c \<noteq> 0"
  note b = unat_ushort_bounds [OF this]
  have "unat (nth_id c 0) = unat c"
    using b by (simp add: unat_nth_id)
  then show ?thesis by (simp only: word_unat_eq_iff)
qed

lemma GetNextSessionId_next:
  assumes "gNextSessionId w \<noteq> 0"
  shows "gNextSessionId (snd (GetNextSessionId w)) = nth_id (gNextSessionId w) 1"
proof -
  let ?c = "gNextSessionId w"
  note b = unat_ushort_bounds [OF assms]
  show ?thesis
  proof (cases "unat ?c = 65535")
    case True
    then have "unat ?c = unat (65535 :: ushort)" by simp
    then have "?c = 65535" by (simp only: word_unat_eq_iff)
    then have "?c + 1 = 0" by simp
    moreover have "unat (nth_id ?c 1) = unat (1 :: ushort)"
      using True by (simp add: unat_nth_id)
    then have "nth_id ?c 1 = 1" by (simp only: word_unat_eq_iff)
    ultimately show ?thesis by (simp add: GetNextSessionId_def Let_def)
  next
    case False
    with b have lt: "unat ?c < 65535" by simp
    then have u: "unat (?c + 1) = unat ?c + 1"
      by (simp add: unat_word_ariths)
    then have nz: "?c + 1 \<noteq> 0" by (metis Suc_eq_plus1 nat.distinct(1) unat_0)
    have "unat (nth_id ?c 1) = unat (?c + 1)"
      using lt b u by (simp add: unat_nth_id)
    then have "nth_id ?c 1 = ?c + 1" by (simp only: word_unat_eq_iff)
    with nz show ?thesis by (simp add: GetNextSessionId_def Let_def)
  qed
qed

lemma nth_id_shift: "c \<noteq> 0 \<Longrightarrow> nth_id (nth_id c 1) k = nth_id c (Suc k)"
proof -
  assume "c \<noteq> 0"
  note b = unat_ushort_bounds [OF this]
  have "unat (nth_id (nth_id c 1) k) = ((unat c - 1 + 1) mod 65535 + k) mod 65535 + 1"
    by (simp add: unat_nth_id)
  also have "\<dots> = (unat c - 1 + 1 + k) mod 65535 + 1"
    by (simp add: mod_add_left_eq)
  also have "\<dots> = unat (nth_id c (Suc k))"
    by (simp add: unat_nth_id)
  finally show ?thesis by (simp only: word_unat_eq_iff)
qed

lemma nth_id_period: "nth_id c (k + 65535) = nth_id c k"
proof -
  have "unat (nth_id c (k + 65535)) = unat (nth_id c k)"
    by (simp add: unat_nth_id add.assoc [symmetric])
  then show ?thesis by (simp only: word_unat_eq_iff)
qed

lemma nth_id_inj:
  assumes "k < k'" and "k' < 65535"
  shows "nth_id c k \<noteq> nth_id c k'"
proof
  assume "nth_id c k = nth_id c k'"
  then have "unat (nth_id c k) = unat (nth_id c k')" by simp
  then have "(unat c - 1 + k) mod 65535 = (unat c - 1 + k') mod 65535"
    by (simp add: unat_nth_id)
  then have "(unat c - 1 + k') mod 65535 = (unat c - 1 + k) mod 65535" by simp
  moreover have "unat c - 1 + k \<le> unat c - 1 + k'" using assms by simp
  ultimately have "65535 dvd (unat c - 1 + k') - (unat c - 1 + k)"
    by (simp only: mod_eq_dvd_iff_nat)
  then have "(65535 :: nat) dvd k' - k" by simp
  moreover have "0 < k' - k" "k' - k < 65535" using assms by simp_all
  ultimately show False using nat_dvd_not_less by blast
qed

lemma GetNextSessionId_n_ids:
  "gNextSessionId w \<noteq> 0 \<Longrightarrow>
     fst (GetNextSessionId_n n w) = map (nth_id (gNextSessionId w)) [0..<n]"
proof (induction n arbitrary: w)
  case 0
  then show ?case by simp
next
  case (Suc n)
  let ?c = "gNextSessionId w"
  let ?w1 = "snd (GetNextSessionId w)"
  have nz: "gNextSessionId ?w1 \<noteq> 0"
    by (simp add: GetNextSessionId_next [OF Suc.prems] nth_id_nonzero)
  have "fst (GetNextSessionId_n (Suc n) w) = ?c # fst (GetNextSessionId_n n ?w1)"
    by (simp add: split_def Let_def GetNextSessionId_def)
  also have "\<dots> = nth_id ?c 0 # map (nth_id (nth_id ?c 1)) [0..<n]"
    by (simp add: Suc.IH [OF nz] GetNextSessionId_next [OF Suc.prems] nth_id_0 [OF Suc.prems])
  also have "\<dots> = nth_id ?c 0 # map (\<lambda>k. nth_id ?c (Suc k)) [0..<n]"
  proof -
    have "nth_id (nth_id ?c 1) = (\<lambda>k. nth_id ?c (Suc k))"
      by (rule ext) (rule nth_id_shift [OF Suc.prems])
    then show ?thesis by simp
  qed
  also have "\<dots> = map (nth_id ?c) [0..<Suc n]"
    by (simp only: map_upt_Suc)
  finally show ?case .
qed

lemma ids_nonzero: "0 \<notin> set (map (nth_id c) [0..<n])"
  using nth_id_nonzero [of c] by (auto simp del: upt_Suc)

lemma ids_distinct: "n \<le> 65535 \<Longrightarrow> distinct (map (nth_id c) [0..<n])"
proof -
  assume n: "n \<le> 65535"
  have "inj_on (nth_id c) {0..<n}"
  proof (rule inj_onI)
    fix x y assume "x \<in> {0..<n}" "y \<in> {0..<n}" and eq: "nth_id c x = nth_id c y"
    with n have "x < 65535" "y < 65535" by simp_all
    with eq nth_id_inj [of x y c] nth_id_inj [of y x c] show "x = y"
      by (cases x y rule: linorder_cases) auto
  qed
  then show ?thesis by (simp add: distinct_map)
qed

lemma ids_period:
  "map (nth_id c) [0..<65535 + n] = map (nth_id c) [0..<65535] @ map (nth_id c) [0..<n]"
proof -
  have "[0..<65535 + n] = [0..<65535] @ map (\<lambda>k. k + 65535) [0..<n]"
    by (simp only: upt_add_eq_append [OF le0] map_add_upt add.commute [of n] add_0)
  then have "map (nth_id c) [0..<65535 + n]
      = map (nth_id c) [0..<65535] @ map (\<lambda>k. nth_id c (k + 65535)) [0..<n]"
    by (simp only: map_append map_map o_def)
  then show ?thesis by (simp only: nth_id_period)
qed

subsection \<open>Which operations change sequence numbers\<close>

lemma seq_frame_refl: "seq_frame w w"
  by (auto simp: seq_frame_def)

lemma seq_frame_InterlockedIncrement:
  "InterlockedIncrement w s = Inr (n, w') \<Longrightarrow> seq_frame w w'"
  by (auto simp: InterlockedIncrement_def seq_frame_def deref_def map_of_store_fun
      split: option.splits if_splits)

lemma seq_frame_release:
  "release w s = Inr w' \<Longrightarrow> seq_frame w w'"
  by (auto simp: release_def InterlockedDecrement_def delete_SessionData_def seq_frame_def
        deref_def map_of_store_fun store_def delete_conv' update_conv'
      split: option.splits if_splits)

lemma seq_frame_Session_assign:
  assumes "Session_assign w s t = Inr (s', w')"
  shows "seq_frame w w'"
proof (cases "mRefP s = mRefP t")
  case True
  with assms show ?thesis by (simp add: Session_assign_def seq_frame_refl)
next
  case False
  with assms obtain n w1 where
    i: "InterlockedIncrement w t = Inr (n, w1)" and r: "release w1 s = Inr w'"
    by (auto simp: Session_assign_def split: sum.splits)
  from i obtain dj where dj: "map_of (heap w) (mRefP t) = Some dj"
      and w1: "w1 = store w t (dj\<lparr>mRefCt := mRefCt dj + 1\<rparr>)"
    by (auto simp: InterlockedIncrement_def deref_def split: option.splits)
  show ?thesis
    unfolding seq_frame_def
  proof (intro allI impI, elim conjE)
    fix a d d'
    assume a: "map_of (heap w) a = Some d" and a': "map_of (heap w') a = Some d'"
    obtain d1 where d1: "map_of (heap w1) a = Some d1"
        "mRecvSeq d1 = mRecvSeq d" "mSendSeq d1 = mSendSeq d"
      using a dj w1 by (cases "a = mRefP t") (auto simp: map_of_store_fun)
    from seq_frame_release [OF r] d1(1) a'
    have "mRecvSeq d' = mRecvSeq d1 \<and> mSendSeq d' = mSendSeq d1"
      unfolding seq_frame_def by blast
    with d1 show "mRecvSeq d' = mRecvSeq d \<and> mSendSeq d' = mSendSeq d" by simp
  qed
qed

lemma seq_frame_Session_ctor_id:
  "Session_ctor_id w theId = (s, w') \<Longrightarrow> seq_frame w w'"
  by (auto simp: Session_ctor_id_def new_SessionData_def Let_def seq_frame_def store_def
        update_conv' new_addr_fresh split: if_splits)

lemma seq_frame_Session_ctor_init:
  assumes "Session_ctor_init w theAttr theKeyP theCertP theId = Inr (s, w')"
  shows "seq_frame w w'"
proof -
  from Session_ctor_init_effect [of w theAttr theKeyP theCertP theId] assms
  have "map_of (heap w) (mRefP s) = None"
    and "map_of (heap w') = (map_of (heap w))
           (mRefP s \<mapsto> initialised w SessionData_ctor theAttr theKeyP theCertP theId)"
    by auto
  then show ?thesis
    by (auto simp: seq_frame_def split: if_splits)
qed

lemma seq_frame_Touch:
  "Touch w s = Inr w' \<Longrightarrow> seq_frame w w'"
  by (auto simp: Touch_def seq_frame_def deref_def map_of_store_fun
      split: option.splits if_splits)

lemma Init_seq:
  assumes "Init w s theAttr theKeyP theCertP theId = Inr (s', w')"
    and "map_of (heap w) a = Some d" and "map_of (heap w') a = Some d'"
  shows "(mRecvSeq d' = mRecvSeq d \<and> mSendSeq d' = mSendSeq d)
       \<or> (mRefP s = a \<and> mRecvSeq d' = 0 \<and> mSendSeq d' = 0)"
proof -
  from assms(1) obtain d0 where l: "map_of (heap w) (mRefP s) = Some d0"
    by (auto simp: Init_def deref_def split: option.splits)
  show ?thesis
  proof (cases "1 < mRefCt d0")
    case True
    from Init_detach [OF l True, of theAttr theKeyP theCertP theId] assms(1)
    have "map_of (heap w) (mRefP s') = None"
      and "map_of (heap w') = (map_of (heap w))
           (mRefP s \<mapsto> d0\<lparr>mRefCt := mRefCt d0 - 1\<rparr>,
            mRefP s' \<mapsto> initialised w SessionData_ctor theAttr theKeyP theCertP theId)"
      by auto
    with assms(2,3) l show ?thesis by (auto split: if_splits)
  next
    case False
    from Init_in_place [OF l False, of theAttr theKeyP theCertP theId] assms(1)
    have "map_of (heap w') = (map_of (heap w))
            (mRefP s \<mapsto> initialised w d0 theAttr theKeyP theCertP theId)"
      by auto
    with assms(2,3) show ?thesis by (auto simp: initialised_def split: if_splits)
  qed
qed

lemma TestSetRecvSeq_seq:
  assumes "TestSetRecvSeq w s theSeq isReliable = Inr (b, w')"
    and "map_of (heap w) a = Some d" and "map_of (heap w') a = Some d'"
  shows "mSendSeq d' = mSendSeq d
       \<and> (if b \<and> mRefP s = a then uint (mRecvSeq d) < uint (mRecvSeq d')
           else mRecvSeq d' = mRecvSeq d)"
  using assms
  by (auto simp: TestSetRecvSeq_def deref_def Let_def map_of_store_fun
      split: option.splits if_splits)

lemma TestSetSendSeq_seq:
  assumes "TestSetSendSeq w s theSeq isReliable = Inr (b, w')"
    and "map_of (heap w) a = Some d" and "map_of (heap w') a = Some d'"
  shows "mRecvSeq d' = mRecvSeq d
       \<and> (if b \<and> mRefP s = a then uint (mSendSeq d) < uint (mSendSeq d')
           else mSendSeq d' = mSendSeq d)"
  using assms
  by (auto simp: TestSetSendSeq_def deref_def Let_def map_of_store_fun
      split: option.splits if_splits)

lemma exec_TestSetRecvSeqD:
  assumes "exec ctime (CTestSetRecvSeq i theSeq isReliable) p = Inr (r, p')"
  shows "\<exists>b. TestSetRecvSeq (mem p) (vars p ! i) theSeq isReliable = Inr (b, mem p') \<and> r = RBool b"
proof (cases "TestSetRecvSeq (mem p) (vars p ! i) theSeq isReliable")
  case (Inl e)
  with assms show ?thesis by (simp split: if_splits)
next
  case (Inr x)
  obtain b w' where x: "x = (b, w')" by (cases x)
  with Inr assms have "r = RBool b" "p' = p\<lparr>mem := w'\<rparr>"
    by (simp_all split: if_splits)
  with Inr x show ?thesis by simp
qed

lemma exec_TestSetSendSeqD:
  assumes "exec ctime (CTestSetSendSeq i theSeq isReliable) p = Inr (r, p')"
  shows "\<exists>b. TestSetSendSeq (mem p) (vars p ! i) theSeq isReliable = Inr (b, mem p') \<and> r = RBool b"
proof (cases "TestSetSendSeq (mem p) (vars p ! i) theSeq isReliable")
  case (Inl e)
  with assms show ?thesis by (simp split: if_splits)
next
  case (Inr x)
  obtain b w' where x: "x = (b, w')" by (cases x)
  with Inr assms have "r = RBool b" "p' = p\<lparr>mem := w'\<rparr>"
    by (simp_all split: if_splits)
  with Inr x show ?thesis by simp
qed

subsection \<open>Example states\<close>

lemma exec_CDefault_initial:
  "exec ctime CDefault (initial 0) = Inr (RVoid, one_default)"
  by (simp add: initial_def one_default_def shared_world_def constructed_def run_defs
        SessionData_ctor_def)

lemma reachable_one_default: "reachable one_default"
  by (rule reachable.call [OF reachable.start exec_CDefault_initial [of "\<lambda>t. []"]])

lemma deref_shared_world:
  "deref shared_world \<lparr>mRefP = 1\<rparr> = Inr (SessionData_ctor\<lparr>mRefCt := 2\<rparr>)"
  by (simp add: shared_world_def deref_store)

subsection \<open>Sequence numbers\<close>

text \<open>
  C1. For a handle on an allocated record, \<open>TestSetRecvSeq\<close> and \<open>TestSetSendSeq\<close>
  return, and return true exactly when the acceptance rule holds: for a reliable channel
  the given number equals the stored number plus 1 (the sum taken in the integers, as
  the promotion to \<open>int\<close> makes it), otherwise it is strictly greater than the stored
  number. The stored number becomes the given one when the call returns true; when it
  returns false the whole state is unchanged.
\<close>

theorem TestSetSeq_acceptance:
  assumes "deref w this = Inr d"
  shows "(\<exists>aRet w'. TestSetRecvSeq w this theSeq isReliable = Inr (aRet, w')
            \<and> (aRet \<longleftrightarrow> (if isReliable then uint theSeq = uint (mRecvSeq d) + 1
                                    else uint (mRecvSeq d) < uint theSeq))
            \<and> deref w' this = Inr (if aRet then d\<lparr>mRecvSeq := theSeq\<rparr> else d)
            \<and> (\<not> aRet \<longrightarrow> w' = w))
       \<and> (\<exists>aRet w'. TestSetSendSeq w this theSeq isReliable = Inr (aRet, w')
            \<and> (aRet \<longleftrightarrow> (if isReliable then uint theSeq = uint (mSendSeq d) + 1
                                    else uint (mSendSeq d) < uint theSeq))
            \<and> deref w' this = Inr (if aRet then d\<lparr>mSendSeq := theSeq\<rparr> else d)
            \<and> (\<not> aRet \<longrightarrow> w' = w))"
proof (intro conjI)
  show "\<exists>aRet w'. TestSetRecvSeq w this theSeq isReliable = Inr (aRet, w')
            \<and> (aRet \<longleftrightarrow> (if isReliable then uint theSeq = uint (mRecvSeq d) + 1
                                    else uint (mRecvSeq d) < uint theSeq))
            \<and> deref w' this = Inr (if aRet then d\<lparr>mRecvSeq := theSeq\<rparr> else d)
            \<and> (\<not> aRet \<longrightarrow> w' = w)"
    using assms by (auto simp: TestSetRecvSeq_def Let_def deref_store)
  show "\<exists>aRet w'. TestSetSendSeq w this theSeq isReliable = Inr (aRet, w')
            \<and> (aRet \<longleftrightarrow> (if isReliable then uint theSeq = uint (mSendSeq d) + 1
                                    else uint (mSendSeq d) < uint theSeq))
            \<and> deref w' this = Inr (if aRet then d\<lparr>mSendSeq := theSeq\<rparr> else d)
            \<and> (\<not> aRet \<longrightarrow> w' = w)"
    using assms by (auto simp: TestSetSendSeq_def Let_def deref_store)
qed

theorem TestSetSeq_acceptance_witness:
  "deref (static_init 0) \<lparr>mRefP = 1\<rparr> = Inr SessionData_ctor
   \<and> (\<exists>w'. TestSetRecvSeq (static_init 0) \<lparr>mRefP = 1\<rparr> 1 True = Inr (True, w')
           \<and> deref w' \<lparr>mRefP = 1\<rparr> = Inr (SessionData_ctor\<lparr>mRecvSeq := 1\<rparr>))
   \<and> (\<exists>w'. TestSetSendSeq (static_init 0) \<lparr>mRefP = 1\<rparr> 1 True = Inr (True, w')
           \<and> deref w' \<lparr>mRefP = 1\<rparr> = Inr (SessionData_ctor\<lparr>mSendSeq := 1\<rparr>))"
proof -
  note h = deref_sentinel_static_init [of 0]
  have z: "mRecvSeq SessionData_ctor = 0" "mSendSeq SessionData_ctor = 0"
    by (simp_all add: SessionData_ctor_def)
  note inst = TestSetSeq_acceptance [OF h, of 1 True]
  from inst obtain a w1 where
    r: "TestSetRecvSeq (static_init 0) \<lparr>mRefP = 1\<rparr> 1 True = Inr (a, w1)"
       "a \<longleftrightarrow> (if True then uint (1 :: ushort) = uint (mRecvSeq SessionData_ctor) + 1
                else uint (mRecvSeq SessionData_ctor) < uint (1 :: ushort))"
       "deref w1 \<lparr>mRefP = 1\<rparr>
          = Inr (if a then SessionData_ctor\<lparr>mRecvSeq := 1\<rparr> else SessionData_ctor)"
    by blast
  from inst obtain b w2 where
    s: "TestSetSendSeq (static_init 0) \<lparr>mRefP = 1\<rparr> 1 True = Inr (b, w2)"
       "b \<longleftrightarrow> (if True then uint (1 :: ushort) = uint (mSendSeq SessionData_ctor) + 1
                else uint (mSendSeq SessionData_ctor) < uint (1 :: ushort))"
       "deref w2 \<lparr>mRefP = 1\<rparr>
          = Inr (if b then SessionData_ctor\<lparr>mSendSeq := 1\<rparr> else SessionData_ctor)"
    by blast
  from r(2) z have a by simp
  from s(2) z have b by simp
  from r(1,3) \<open>a\<close> have "\<exists>w'. TestSetRecvSeq (static_init 0) \<lparr>mRefP = 1\<rparr> 1 True = Inr (True, w')
           \<and> deref w' \<lparr>mRefP = 1\<rparr> = Inr (SessionData_ctor\<lparr>mRecvSeq := 1\<rparr>)"
    by simp
  moreover
  from s(1,3) \<open>b\<close> have "\<exists>w'. TestSetSendSeq (static_init 0) \<lparr>mRefP = 1\<rparr> 1 True = Inr (True, w')
           \<and> deref w' \<lparr>mRefP = 1\<rparr> = Inr (SessionData_ctor\<lparr>mSendSeq := 1\<rparr>)"
    by simp
  ultimately show ?thesis using h by blast
qed

text \<open>
  C10. When the stored receive (send) number of a record is 65535, \<open>TestSetRecvSeq\<close>
  (\<open>TestSetSendSeq\<close>) on a reliable channel returns false for every 16-bit number,
  0 included, and changes nothing: the sum of the stored number and 1 is 65536 in \<open>int\<close>,
  which no \<open>unsigned short\<close> equals.
\<close>

theorem TestSetSeq_reliable_stuck:
  assumes "deref w this = Inr d"
  shows "(mRecvSeq d = 65535 \<longrightarrow> TestSetRecvSeq w this theSeq True = Inr (False, w))
       \<and> (mSendSeq d = 65535 \<longrightarrow> TestSetSendSeq w this theSeq True = Inr (False, w))"
proof -
  have "uint theSeq < 65536"
    using uint_bounded [of theSeq] by simp
  then show ?thesis
    using assms by (simp add: TestSetRecvSeq_def TestSetSendSeq_def Let_def)
qed

theorem TestSetSeq_reliable_stuck_witness:
  "TestSetRecvSeq stuck_world \<lparr>mRefP = 1\<rparr> 0 True = Inr (False, stuck_world)
   \<and> TestSetSendSeq stuck_world \<lparr>mRefP = 1\<rparr> 0 True = Inr (False, stuck_world)"
proof -
  have h: "deref stuck_world \<lparr>mRefP = 1\<rparr>
             = Inr (SessionData_ctor\<lparr>mRecvSeq := 65535, mSendSeq := 65535\<rparr>)"
    by (simp add: stuck_world_def deref_store)
  show ?thesis
    using TestSetSeq_reliable_stuck [OF h, of 0] by simp
qed

subsection \<open>Validity\<close>

text \<open>
  C2. For a handle on an allocated record, \<open>IsValid\<close> returns false if the identifier
  is 0. Otherwise it returns true if the encryption mode is \<open>ENCRYPT_NONE\<close>, and for
  any other mode it returns true exactly when the key pointer and the certificate
  pointer are both non-null.
\<close>

theorem IsValid_rule:
  assumes "deref w this = Inr d"
  shows "(mId d = 0 \<longrightarrow> IsValid w this = Inr False)
       \<and> (mId d \<noteq> 0 \<and> mEncryptMode (mEncryptAttr d) = ENCRYPT_NONE
            \<longrightarrow> IsValid w this = Inr True)
       \<and> (mId d \<noteq> 0 \<and> mEncryptMode (mEncryptAttr d) \<noteq> ENCRYPT_NONE
            \<longrightarrow> IsValid w this = Inr (mKeyP d \<noteq> None \<and> mCertP d \<noteq> None))"
  using assms by (simp add: IsValid_def)

theorem IsValid_rule_witness:
  "(case Session_ctor_init (static_init 0) blowfish None None 0 of
      Inl e \<Rightarrow> False
    | Inr (s, w) \<Rightarrow>
        deref w s = Inr (SessionData_ctor\<lparr>mId := 1, mEncryptAttr := blowfish\<rparr>)
        \<and> IsValid w s = Inr False)
   \<and> IsValid (static_init 0) \<lparr>mRefP = 1\<rparr> = Inr False"
proof -
  let ?w = "\<lparr>heap = [(1, SessionData_ctor),
                     (2, SessionData_ctor\<lparr>mId := 1, mEncryptAttr := blowfish\<rparr>)],
             gNextSessionId = 2, gInvalidSession = \<lparr>mRefP = 1\<rparr>, deleted = [],
             clock = 0\<rparr>"
  have h: "deref ?w \<lparr>mRefP = 2\<rparr>
             = Inr (SessionData_ctor\<lparr>mId := 1, mEncryptAttr := blowfish\<rparr>)"
    by (simp add: deref_def)
  have "IsValid ?w \<lparr>mRefP = 2\<rparr> = Inr False"
    using IsValid_rule [OF h] by (simp add: blowfish_def SessionData_ctor_def)
  moreover have "IsValid (static_init 0) \<lparr>mRefP = 1\<rparr> = Inr False"
    using IsValid_rule [OF deref_sentinel_static_init [of 0]]
    by (simp add: SessionData_ctor_def)
  ultimately show ?thesis
    using h by (simp add: ctor_init_blowfish_unkeyed)
qed

text \<open>
  C6. Across any call that returns, the sequence numbers of a record allocated before
  and after it change only as follows. An accepted \<open>TestSetRecvSeq\<close> through a handle
  on the record makes the stored receive number strictly greater and leaves the send
  number; an accepted \<open>TestSetSendSeq\<close> does the same for the send number; a rejected
  call of either, and either call through a handle on another record, leaves both.
  \<open>Init\<close> leaves both or, run in place on the record, sets both to 0. Every other
  call (constructors, destructor, assignment, \<open>IsValid\<close>, \<open>Touch\<close>, \<open>Dump\<close>) leaves both.
\<close>

theorem sequence_numbers_change_only_by_TestSet:
  assumes "exec ctime cl p = Inr (r, p')"
    and "map_of (heap (mem p)) a = Some d" and "map_of (heap (mem p')) a = Some d'"
  shows "case cl of
           CTestSetRecvSeq i theSeq isReliable \<Rightarrow>
             mSendSeq d' = mSendSeq d
             \<and> (if r = RBool True \<and> mRefP (vars p ! i) = a
                 then uint (mRecvSeq d) < uint (mRecvSeq d')
                 else mRecvSeq d' = mRecvSeq d)
         | CTestSetSendSeq i theSeq isReliable \<Rightarrow>
             mRecvSeq d' = mRecvSeq d
             \<and> (if r = RBool True \<and> mRefP (vars p ! i) = a
                 then uint (mSendSeq d) < uint (mSendSeq d')
                 else mSendSeq d' = mSendSeq d)
         | CInit i theAttr theKeyP theCertP theId \<Rightarrow>
             (mRecvSeq d' = mRecvSeq d \<and> mSendSeq d' = mSendSeq d)
             \<or> (mRefP (vars p ! i) = a \<and> mRecvSeq d' = 0 \<and> mSendSeq d' = 0)
         | _ \<Rightarrow> mRecvSeq d' = mRecvSeq d \<and> mSendSeq d' = mSendSeq d"
proof -
  have frame: "seq_frame (mem p) (mem p') \<Longrightarrow>
      mRecvSeq d' = mRecvSeq d \<and> mSendSeq d' = mSendSeq d"
    using assms(2,3) unfolding seq_frame_def by blast
  show ?thesis
  proof (cases cl)
    case CDefault
    with assms(1) obtain n where
      "InterlockedIncrement (mem p) (gInvalidSession (mem p)) = Inr (n, mem p')"
      by (auto simp: constructed_def Session_ctor_def Let_def split: sum.splits)
    then have "seq_frame (mem p) (mem p')" by (rule seq_frame_InterlockedIncrement)
    with frame CDefault show ?thesis by simp
  next
    case (CConstruct theAttr theKeyP theCertP theId)
    with assms(1) obtain s where
      "Session_ctor_init (mem p) theAttr theKeyP theCertP theId = Inr (s, mem p')"
      by (auto simp: constructed_def split: sum.splits)
    then have "seq_frame (mem p) (mem p')" by (rule seq_frame_Session_ctor_init)
    with frame CConstruct show ?thesis by simp
  next
    case (CSearch theId)
    with assms(1) obtain s where
      "Session_ctor_id (mem p) theId = (s, mem p')"
      by (auto simp: constructed_def split: prod.splits)
    then have "seq_frame (mem p) (mem p')" by (rule seq_frame_Session_ctor_id)
    with frame CSearch show ?thesis by simp
  next
    case (CCopy i)
    with assms(1) obtain n where
      "InterlockedIncrement (mem p) (vars p ! i) = Inr (n, mem p')"
      by (auto simp: constructed_def Session_copy_def Let_def split: sum.splits if_splits)
    then have "seq_frame (mem p) (mem p')" by (rule seq_frame_InterlockedIncrement)
    with frame CCopy show ?thesis by simp
  next
    case (CDestroy i)
    with assms(1) have "release (mem p) (vars p ! i) = Inr (mem p')"
      by (auto simp: Session_dtor_def split: sum.splits if_splits)
    then have "seq_frame (mem p) (mem p')" by (rule seq_frame_release)
    with frame CDestroy show ?thesis by simp
  next
    case (CAssign i j)
    with assms(1) obtain s where
      "Session_assign (mem p) (vars p ! i) (vars p ! j) = Inr (s, mem p')"
      by (auto simp: rebound_def split: sum.splits if_splits)
    then have "seq_frame (mem p) (mem p')" by (rule seq_frame_Session_assign)
    with frame CAssign show ?thesis by simp
  next
    case (CIsValid i)
    with assms(1) have "p' = p" by (auto split: sum.splits if_splits)
    with frame CIsValid show ?thesis by (simp add: seq_frame_refl)
  next
    case (CInit i theAttr theKeyP theCertP theId)
    with assms(1) obtain s' where
      "Init (mem p) (vars p ! i) theAttr theKeyP theCertP theId = Inr (s', mem p')"
      by (auto simp: rebound_def split: sum.splits if_splits)
    from Init_seq [OF this assms(2,3)] CInit show ?thesis by simp
  next
    case (CTouch i)
    with assms(1) have "Touch (mem p) (vars p ! i) = Inr (mem p')"
      by (auto split: sum.splits if_splits)
    then have "seq_frame (mem p) (mem p')" by (rule seq_frame_Touch)
    with frame CTouch show ?thesis by simp
  next
    case (CTestSetRecvSeq i theSeq isReliable)
    with assms(1) exec_TestSetRecvSeqD obtain b where
      "TestSetRecvSeq (mem p) (vars p ! i) theSeq isReliable = Inr (b, mem p')" "r = RBool b"
      by blast
    with TestSetRecvSeq_seq [OF this(1) assms(2,3)] CTestSetRecvSeq show ?thesis by simp
  next
    case (CTestSetSendSeq i theSeq isReliable)
    with assms(1) exec_TestSetSendSeqD obtain b where
      "TestSetSendSeq (mem p) (vars p ! i) theSeq isReliable = Inr (b, mem p')" "r = RBool b"
      by blast
    with TestSetSendSeq_seq [OF this(1) assms(2,3)] CTestSetSendSeq show ?thesis by simp
  next
    case (CDump i verbose)
    with assms(1) have "p' = p" by (auto split: sum.splits if_splits)
    with frame CDump show ?thesis by (simp add: seq_frame_refl)
  qed
qed

theorem sequence_numbers_change_only_by_TestSet_witness:
  "exec example_ctime (CTestSetRecvSeq 0 5 False) one_default = Inr (RBool True, one_default_recv5)
   \<and> map_of (heap (mem one_default)) 1 = Some (SessionData_ctor\<lparr>mRefCt := 2\<rparr>)
   \<and> map_of (heap (mem one_default_recv5)) 1 = Some (SessionData_ctor\<lparr>mRefCt := 2, mRecvSeq := 5\<rparr>)
   \<and> mSendSeq (SessionData_ctor\<lparr>mRefCt := 2, mRecvSeq := 5\<rparr>)
       = mSendSeq (SessionData_ctor\<lparr>mRefCt := 2\<rparr>)
   \<and> uint (mRecvSeq (SessionData_ctor\<lparr>mRefCt := 2\<rparr>))
       < uint (mRecvSeq (SessionData_ctor\<lparr>mRefCt := 2, mRecvSeq := 5\<rparr>))"
proof -
  have e: "exec example_ctime (CTestSetRecvSeq 0 5 False) one_default
             = Inr (RBool True, one_default_recv5)"
    by (simp add: one_default_def one_default_recv5_def shared_world_def static_init_eq
          TestSetRecvSeq_def deref_def store_def Let_def SessionData_ctor_def)
  have a: "map_of (heap (mem one_default)) 1 = Some (SessionData_ctor\<lparr>mRefCt := 2\<rparr>)"
    by (simp add: one_default_def shared_world_def map_of_store_fun)
  have b: "map_of (heap (mem one_default_recv5)) 1
             = Some (SessionData_ctor\<lparr>mRefCt := 2, mRecvSeq := 5\<rparr>)"
    by (simp add: one_default_recv5_def map_of_store_fun)
  have v: "mRefP (vars one_default ! 0) = 1" by (simp add: one_default_def)
  from sequence_numbers_change_only_by_TestSet [OF e a b]
  show ?thesis using e a b v by simp
qed

subsection \<open>Initialisation\<close>

text \<open>
  C5. In every reachable state, \<open>Init\<close> on any object of the client returns, and so
  does the constructor that takes the same arguments. The record the handle then points
  to has: the given identifier and \<open>mIsRemote\<close> set if the given identifier is not 0;
  otherwise the identifier that \<open>GetNextSessionId\<close> returns in that state, which is not
  0, and \<open>mIsRemote\<close> cleared; in both cases the given attributes, key pointer and
  certificate pointer, and both sequence numbers 0.
\<close>

theorem Init_postcondition:
  assumes "reachable p"
  shows "(i < length (vars p) \<longrightarrow>
          (\<exists>this' w' d. Init (mem p) (vars p ! i) theAttr theKeyP theCertP theId = Inr (this', w')
             \<and> deref w' this' = Inr d
             \<and> (if theId \<noteq> 0 then mId d = theId \<and> mIsRemote d
                 else mId d = fst (GetNextSessionId (mem p)) \<and> mId d \<noteq> 0 \<and> \<not> mIsRemote d)
             \<and> mEncryptAttr d = theAttr \<and> mKeyP d = theKeyP \<and> mCertP d = theCertP
             \<and> mRecvSeq d = 0 \<and> mSendSeq d = 0))
       \<and> (\<exists>this' w' d. Session_ctor_init (mem p) theAttr theKeyP theCertP theId = Inr (this', w')
             \<and> deref w' this' = Inr d
             \<and> (if theId \<noteq> 0 then mId d = theId \<and> mIsRemote d
                 else mId d = fst (GetNextSessionId (mem p)) \<and> mId d \<noteq> 0 \<and> \<not> mIsRemote d)
             \<and> mEncryptAttr d = theAttr \<and> mKeyP d = theKeyP \<and> mCertP d = theCertP
             \<and> mRecvSeq d = 0 \<and> mSendSeq d = 0)"
proof -
  from assms have c: "consistent p" by (rule reachable_consistent)
  then have nz: "gNextSessionId (mem p) \<noteq> 0" by (rule consistentD(3))
  let ?P = "\<lambda>d. (if theId \<noteq> 0 then mId d = theId \<and> mIsRemote d
               else mId d = fst (GetNextSessionId (mem p)) \<and> mId d \<noteq> 0 \<and> \<not> mIsRemote d)
           \<and> mEncryptAttr d = theAttr \<and> mKeyP d = theKeyP \<and> mCertP d = theCertP
           \<and> mRecvSeq d = 0 \<and> mSendSeq d = 0"
  have P: "?P (initialised (mem p) d' theAttr theKeyP theCertP theId)" for d'
    using nz by (simp add: initialised_def GetNextSessionId_fields)
  have obj: "\<exists>this' w' d. Init (mem p) (vars p ! i) theAttr theKeyP theCertP theId = Inr (this', w')
             \<and> deref w' this' = Inr d \<and> ?P d" if i: "i < length (vars p)"
  proof -
    from consistent_var_live [OF c i] obtain d0 where
      l: "map_of (heap (mem p)) (mRefP (vars p ! i)) = Some d0" by blast
    show ?thesis
    proof (cases "1 < mRefCt d0")
      case True
      from Init_detach [OF l True, of theAttr theKeyP theCertP theId] obtain s w' where
        n: "Init (mem p) (vars p ! i) theAttr theKeyP theCertP theId = Inr (s, w')"
           "map_of (heap w') = (map_of (heap (mem p)))
             (mRefP (vars p ! i) \<mapsto> d0\<lparr>mRefCt := mRefCt d0 - 1\<rparr>,
              mRefP s \<mapsto> initialised (mem p) SessionData_ctor theAttr theKeyP theCertP theId)"
        by blast
      have "deref w' s = Inr (initialised (mem p) SessionData_ctor theAttr theKeyP theCertP theId)"
        by (simp add: deref_def n(2))
      with n(1) P [of SessionData_ctor] show ?thesis by blast
    next
      case False
      from Init_in_place [OF l False, of theAttr theKeyP theCertP theId] obtain w' where
        n: "Init (mem p) (vars p ! i) theAttr theKeyP theCertP theId = Inr (vars p ! i, w')"
           "map_of (heap w') = (map_of (heap (mem p)))
              (mRefP (vars p ! i) \<mapsto> initialised (mem p) d0 theAttr theKeyP theCertP theId)"
        by blast
      have "deref w' (vars p ! i) = Inr (initialised (mem p) d0 theAttr theKeyP theCertP theId)"
        by (simp add: deref_def n(2))
      with n(1) P [of d0] show ?thesis by blast
    qed
  qed
  have fresh: "\<exists>this' w' d. Session_ctor_init (mem p) theAttr theKeyP theCertP theId = Inr (this', w')
             \<and> deref w' this' = Inr d \<and> ?P d"
  proof -
    from Session_ctor_init_effect [of "mem p" theAttr theKeyP theCertP theId] obtain s w' where
      n: "Session_ctor_init (mem p) theAttr theKeyP theCertP theId = Inr (s, w')"
         "map_of (heap w') = (map_of (heap (mem p)))
           (mRefP s \<mapsto> initialised (mem p) SessionData_ctor theAttr theKeyP theCertP theId)"
      by blast
    have "deref w' s = Inr (initialised (mem p) SessionData_ctor theAttr theKeyP theCertP theId)"
      by (simp add: deref_def n(2))
    with n(1) P [of SessionData_ctor] show ?thesis by blast
  qed
  from obj fresh show ?thesis by blast
qed

theorem Init_postcondition_witness:
  "reachable one_default \<and> 0 < length (vars one_default)
   \<and> (\<exists>this' w' d. Init (mem one_default) (vars one_default ! 0) blowfish (Some 10) (Some 11) 0
                        = Inr (this', w')
          \<and> deref w' this' = Inr d
          \<and> mId d = 1 \<and> \<not> mIsRemote d
          \<and> mEncryptAttr d = blowfish \<and> mKeyP d = Some 10 \<and> mCertP d = Some 11
          \<and> mRecvSeq d = 0 \<and> mSendSeq d = 0)
   \<and> (\<exists>this' w' d. Session_ctor_init (mem one_default) blowfish None None 7 = Inr (this', w')
          \<and> deref w' this' = Inr d
          \<and> mId d = 7 \<and> mIsRemote d)"
proof -
  have l: "0 < length (vars one_default)" by (simp add: one_default_def)
  have g: "fst (GetNextSessionId (mem one_default)) = 1"
    by (simp add: one_default_def shared_world_def static_init_eq GetNextSessionId_def Let_def)
  from Init_postcondition [OF reachable_one_default, of 0 blowfish "Some 10" "Some 11" 0]
    Init_postcondition [OF reachable_one_default, of 0 blowfish None None 7]
  show ?thesis using g l reachable_one_default by auto
qed

text \<open>
  C3. When the record of handle \<open>h\<close> has a reference count above 1, \<open>Init\<close> on \<open>h\<close>
  returns a handle on a record at an address that was not allocated before, with
  reference count 1. Through every other handle on the old record one reads the old
  record with the reference count decremented and every other field as it was; the
  records at all other addresses are as before, and no key or certificate was deleted.
\<close>

theorem Init_shared_detaches:
  assumes "deref w h = Inr d" and "1 < mRefCt d"
  shows "\<exists>h' w'. Init w h theAttr theKeyP theCertP theId = Inr (h', w')
           \<and> mRefP h' \<noteq> mRefP h
           \<and> map_of (heap w) (mRefP h') = None
           \<and> (\<forall>g. mRefP g = mRefP h \<longrightarrow> deref w' g = Inr (d\<lparr>mRefCt := mRefCt d - 1\<rparr>))
           \<and> (\<forall>g. mRefP g \<noteq> mRefP h \<and> mRefP g \<noteq> mRefP h' \<longrightarrow> deref w' g = deref w g)
           \<and> (\<exists>d'. deref w' h' = Inr d' \<and> mRefCt d' = 1)
           \<and> deleted w' = deleted w"
proof -
  from assms(1) have l: "map_of (heap w) (mRefP h) = Some d"
    by (simp add: deref_Inr)
  from Init_detach [OF l assms(2), of theAttr theKeyP theCertP theId] obtain h' w' where
    n: "Init w h theAttr theKeyP theCertP theId = Inr (h', w')"
       "map_of (heap w) (mRefP h') = None"
       "map_of (heap w') = (map_of (heap w))
           (mRefP h \<mapsto> d\<lparr>mRefCt := mRefCt d - 1\<rparr>,
            mRefP h' \<mapsto> initialised w SessionData_ctor theAttr theKeyP theCertP theId)"
       "deleted w' = deleted w"
    by blast
  from l n(2) have ne: "mRefP h' \<noteq> mRefP h" by auto
  have "\<forall>g. mRefP g = mRefP h \<longrightarrow> deref w' g = Inr (d\<lparr>mRefCt := mRefCt d - 1\<rparr>)"
    using ne by (simp add: deref_def n(3))
  moreover have "\<forall>g. mRefP g \<noteq> mRefP h \<and> mRefP g \<noteq> mRefP h' \<longrightarrow> deref w' g = deref w g"
    by (simp add: deref_def n(3))
  moreover have "\<exists>d'. deref w' h' = Inr d' \<and> mRefCt d' = 1"
    by (simp add: deref_def n(3) SessionData_ctor_def)
  ultimately show ?thesis using n(1,2,4) ne by blast
qed

theorem Init_shared_detaches_witness:
  "deref shared_world \<lparr>mRefP = 1\<rparr> = Inr (SessionData_ctor\<lparr>mRefCt := 2\<rparr>)
   \<and> 1 < mRefCt (SessionData_ctor\<lparr>mRefCt := 2\<rparr>)
   \<and> (\<exists>h' w'. Init shared_world \<lparr>mRefP = 1\<rparr> blowfish (Some 10) (Some 11) 0 = Inr (h', w')
          \<and> mRefP h' \<noteq> 1
          \<and> deref w' \<lparr>mRefP = 1\<rparr> = Inr (SessionData_ctor\<lparr>mRefCt := 1\<rparr>)
          \<and> deleted w' = deleted shared_world)"
proof -
  note h = deref_shared_world
  have r: "1 < mRefCt (SessionData_ctor\<lparr>mRefCt := 2\<rparr>)" by simp
  from Init_shared_detaches [OF h r, of blowfish "Some 10" "Some 11" 0]
  show ?thesis using h by auto
qed

subsection \<open>Identifiers\<close>

text \<open>
  C4. In every reachable state, the identifiers returned by the next \<open>n\<close> calls of
  \<open>GetNextSessionId\<close> do not contain 0, are pairwise distinct if \<open>n\<close> is at most 65535,
  and after 65535 calls the sequence starts again: the identifiers of \<open>65535 + n\<close> calls
  are those of the first 65535 calls followed by those of the first \<open>n\<close> calls.
\<close>

theorem GetNextSessionId_sequence:
  assumes "reachable p"
  shows "0 \<notin> set (fst (GetNextSessionId_n n (mem p)))
       \<and> (n \<le> 65535 \<longrightarrow> distinct (fst (GetNextSessionId_n n (mem p))))
       \<and> fst (GetNextSessionId_n (65535 + n) (mem p))
           = fst (GetNextSessionId_n 65535 (mem p)) @ fst (GetNextSessionId_n n (mem p))"
proof -
  from assms have "consistent p" by (rule reachable_consistent)
  then have nz: "gNextSessionId (mem p) \<noteq> 0" by (rule consistentD(3))
  show ?thesis
    unfolding GetNextSessionId_n_ids [OF nz]
    using ids_nonzero ids_distinct ids_period by blast
qed

theorem GetNextSessionId_sequence_witness:
  "reachable (initial 0)
   \<and> fst (GetNextSessionId_n 3 (mem (initial 0))) = [1, 2, 3]
   \<and> 0 \<notin> set (fst (GetNextSessionId_n 3 (mem (initial 0))))
   \<and> distinct (fst (GetNextSessionId_n 3 (mem (initial 0))))
   \<and> fst (GetNextSessionId_n (65535 + 3) (mem (initial 0)))
       = fst (GetNextSessionId_n 65535 (mem (initial 0))) @ [1, 2, 3]"
proof -
  have e: "fst (GetNextSessionId_n 3 (mem (initial 0))) = [1, 2, 3]"
    by (simp add: numeral_3_eq_3 initial_def static_init_eq GetNextSessionId_def Let_def)
  from GetNextSessionId_sequence [OF reachable.start [of 0], of 3]
  show ?thesis using e reachable.start [of 0] by simp
qed

subsection \<open>The invalid session\<close>

text \<open>
  C8. In every reachable state \<open>gInvalidSession\<close> is the handle built at static
  initialisation, its record is allocated and has identifier 0, and \<open>IsValid\<close> on it
  returns false. The default constructor returns that same handle, so every
  default-constructed handle points to this one record; after the construction the
  record still has identifier 0 and \<open>IsValid\<close> still returns false.
\<close>

theorem default_handle_is_sentinel:
  assumes "reachable p"
  shows "gInvalidSession (mem p) = gInvalidSession (static_init 0)
       \<and> IsValid (mem p) (gInvalidSession (mem p)) = Inr False
       \<and> (\<exists>d. deref (mem p) (gInvalidSession (mem p)) = Inr d \<and> mId d = 0)
       \<and> (\<exists>w'. Session_ctor (mem p) = Inr (gInvalidSession (mem p), w')
              \<and> gInvalidSession w' = gInvalidSession (mem p)
              \<and> IsValid w' (gInvalidSession (mem p)) = Inr False
              \<and> (\<exists>d. deref w' (gInvalidSession (mem p)) = Inr d \<and> mId d = 0))"
proof -
  from assms have c: "consistent p" by (rule reachable_consistent)
  note g = consistentD(4) [OF c]
  from consistentD(2) [OF c] obtain d where
    d: "map_of (heap (mem p)) (mRefP (gInvalidSession (mem p))) = Some d" "mId d = 0"
    by blast
  have 1: "gInvalidSession (mem p) = gInvalidSession (static_init 0)"
    using g by (simp add: static_init_eq)
  have 2: "IsValid (mem p) (gInvalidSession (mem p)) = Inr False"
    using d by (simp add: IsValid_def deref_def)
  have 3: "\<exists>d. deref (mem p) (gInvalidSession (mem p)) = Inr d \<and> mId d = 0"
    using d by (simp add: deref_def)
  let ?w' = "store (mem p) (gInvalidSession (mem p)) (d\<lparr>mRefCt := mRefCt d + 1\<rparr>)"
  have "Session_ctor (mem p) = Inr (gInvalidSession (mem p), ?w')"
    using InterlockedIncrement_live [OF d(1)] g by (simp add: Session_ctor_def)
  moreover have "IsValid ?w' (gInvalidSession (mem p)) = Inr False"
    using d(2) by (simp add: IsValid_def deref_store)
  moreover have "\<exists>d. deref ?w' (gInvalidSession (mem p)) = Inr d \<and> mId d = 0"
    using d(2) by (simp add: deref_store)
  ultimately have 4: "\<exists>w'. Session_ctor (mem p) = Inr (gInvalidSession (mem p), w')
              \<and> gInvalidSession w' = gInvalidSession (mem p)
              \<and> IsValid w' (gInvalidSession (mem p)) = Inr False
              \<and> (\<exists>d. deref w' (gInvalidSession (mem p)) = Inr d \<and> mId d = 0)"
    by (intro exI [of _ ?w']) simp
  from 1 2 3 4 show ?thesis by blast
qed

theorem default_handle_is_sentinel_witness:
  "reachable one_default
   \<and> gInvalidSession (mem one_default) = \<lparr>mRefP = 1\<rparr>
   \<and> IsValid (mem one_default) \<lparr>mRefP = 1\<rparr> = Inr False
   \<and> (\<exists>w'. Session_ctor (mem one_default) = Inr (\<lparr>mRefP = 1\<rparr>, w')
          \<and> IsValid w' \<lparr>mRefP = 1\<rparr> = Inr False)"
proof -
  have g: "gInvalidSession (mem one_default) = \<lparr>mRefP = 1\<rparr>"
    by (simp add: one_default_def shared_world_def static_init_eq)
  from default_handle_is_sentinel [OF reachable_one_default] g reachable_one_default
  show ?thesis by auto
qed

subsection \<open>Ownership of the key and the certificate\<close>

text \<open>
  C7. A session is constructed with key 10 and certificate 11, initialised again with
  key 20 and certificate 21, and destroyed. The second initialisation runs in place
  (the reference count is 1) and deletes nothing; the destructor deletes 20 and 21.
  At the end only the sentinel's record is allocated, and \<open>delete\<close> never ran on 10
  and 11.
\<close>

theorem Init_in_place_drops_owned_objects:
  "(case Session_ctor_init (static_init 0) blowfish (Some 10) (Some 11) 0 of
      Inl e \<Rightarrow> False
    | Inr (s, w1) \<Rightarrow>
        (case Init w1 s blowfish (Some 20) (Some 21) 0 of
           Inl e \<Rightarrow> False
         | Inr (s', w2) \<Rightarrow>
             deleted w2 = []
             \<and> (case Session_dtor w2 s' of
                  Inl e \<Rightarrow> False
                | Inr w3 \<Rightarrow> heap w3 = [(1, SessionData_ctor)] \<and> deleted w3 = [20, 21])))"
  by (simp add: run_defs SessionData_ctor_def)

subsection \<open>Dump\<close>

text \<open>
  C9. The verbose \<open>Dump\<close> of a session with a certificate and no key dereferences the
  null key pointer. For a session with key 10 and certificate 11 it inserts the key
  after the label \<open>Certificate:\<close> as well, and the certificate nowhere.
\<close>

theorem Dump_certificate_branch_reads_key:
  "(case Session_ctor_init (static_init 0) blowfish None (Some 11) 0 of
      Inl e \<Rightarrow> False
    | Inr (s, w) \<Rightarrow> Dump example_ctime w s True = Inl NullPointer)
   \<and> (case Session_ctor_init (static_init 0) blowfish (Some 10) (Some 11) 0 of
        Inl e \<Rightarrow> False
      | Inr (s, w) \<Rightarrow>
          Dump example_ctime w s True =
            Inr [OStr ''Session (Id='', OUShort 1, OChar CHR '')'', OEndl,
                 OStr ''  LastAction  = '', OStr (example_ctime 0),
                 OStr ''  EncryptAttr = '', OChar CHR ''('', OStr ''BLOWFISH'',
                 OChar CHR '' '', OBool True, OChar CHR '' '', OBool True,
                 OChar CHR '' '', OBool False, OChar CHR '')'', OEndl,
                 OStr ''  RecvSeq     = '', OUShort 0, OEndl,
                 OStr ''  SendSeq     = '', OUShort 0, OEndl,
                 OStr ''  SymmetricKey: '', OKey 10,
                 OStr ''Certificate: '', OKey 10])"
  by (simp add: run_defs SessionData_ctor_def Dump_def EncryptAttributes_out_def blowfish_def
        example_ctime_def)

end
